theory Spec2Isabelle
  imports Main "HOL-Library.Sublist" "HOL-Library.Char_ord" "HOL-Library.List_Lexorder"
begin

section \<open>JavaScript strings\<close>

text \<open>
  A JavaScript string is modelled as a HOL \<open>string\<close>: a list of code units, restricted to
  the code units U+0000 .. U+00FF. The functions below follow the ECMAScript
  definitions of \<open>split\<close>, \<open>join\<close>, \<open>includes\<close>, \<open>startsWith\<close>, \<open>endsWith\<close>,
  \<open>trim\<close> and \<open>toLowerCase\<close> on that range.
\<close>

text \<open>\<open>s.split(c)\<close> for a one-character separator: the empty string gives one empty piece.\<close>

fun splitOn :: "char \<Rightarrow> string \<Rightarrow> string list" where
  "splitOn c [] = [[]]"
| "splitOn c (x # xs) =
     (if x = c then [] # splitOn c xs
      else (case splitOn c xs of [] \<Rightarrow> [[x]] | p # ps \<Rightarrow> (x # p) # ps))"

text \<open>\<open>xs.join(sep)\<close>.\<close>

fun join :: "string \<Rightarrow> string list \<Rightarrow> string" where
  "join sep [] = []"
| "join sep [x] = x"
| "join sep (x # y # ys) = x @ sep @ join sep (y # ys)"

text \<open>\<open>hay.includes(needle)\<close>: the needle occurs as a contiguous substring.\<close>

fun includesStr :: "string \<Rightarrow> string \<Rightarrow> bool" where
  "includesStr [] needle = (needle = [])"
| "includesStr (h # hay) needle = (prefix needle (h # hay) \<or> includesStr hay needle)"

definition startsWith :: "string \<Rightarrow> string \<Rightarrow> bool" where
  "startsWith s p = prefix p s"

definition endsWith :: "string \<Rightarrow> string \<Rightarrow> bool" where
  "endsWith s p = suffix p s"

text \<open>
  White space of \<open>\s\<close> and of \<open>trim\<close> below U+0100: tab, line feed, vertical tab, form
  feed, carriage return, space and no-break space.
\<close>

definition isSpace :: "char \<Rightarrow> bool" where
  "isSpace c = (of_char c \<in> {9, 10, 11, 12, 13, 32, 160 :: nat})"

definition trim :: "string \<Rightarrow> string" where
  "trim s = rev (dropWhile isSpace (rev (dropWhile isSpace s)))"

text \<open>
  \<open>toLowerCase\<close> below U+0100: the letters A..Z and the Latin-1 capitals U+00C0 .. U+00DE
  (without the multiplication sign U+00D7) move up by 32.
\<close>

definition lowerChar :: "char \<Rightarrow> char" where
  "lowerChar c =
     (let n = (of_char c :: nat)
      in if (65 \<le> n \<and> n \<le> 90) \<or> (192 \<le> n \<and> n \<le> 222 \<and> n \<noteq> 215)
         then char_of (n + 32) else c)"

definition toLowerCase :: "string \<Rightarrow> string" where
  "toLowerCase s = map lowerChar s"

section \<open>Slugs and hrefs\<close>

text \<open>
  \<open>slugToHref\<close> of \<open>navigation-menu.tsx\<close>:
  \<^verbatim>\<open>if (slug.length === 1 && slug[0] === "home") return "/"; return `/${slug.join("/")}`;\<close>
\<close>

definition slugToHref :: "string list \<Rightarrow> string" where
  "slugToHref slug = (if slug = [''home''] then ''/'' else ''/'' @ join ''/'' slug)"

text \<open>
  The test that \<open>assertSafeSlug\<close> of \<open>lib/mdx.ts\<close> applies to each segment:
  \<^verbatim>\<open>!segment || segment.includes("..") || segment.includes("/") || segment.includes("\\")\<close>
  throws; a segment is safe when none of the four holds.
\<close>

definition safeSegment :: "string \<Rightarrow> bool" where
  "safeSegment segment =
     (\<not> (segment = [] \<or> includesStr segment ''..'' \<or> includesStr segment ''/''
         \<or> includesStr segment [CHR 0x5C]))"

section \<open>Search over the document index\<close>

text \<open>\<open>hay.indexOf(needle)\<close>: the first position of the needle, \<open>None\<close> for \<open>-1\<close>.\<close>

fun indexOf :: "string \<Rightarrow> string \<Rightarrow> nat option" where
  "indexOf [] needle = (if needle = [] then Some 0 else None)"
| "indexOf (h # hay) needle =
     (if prefix needle (h # hay) then Some 0 else map_option Suc (indexOf hay needle))"

text \<open>\<open>s.slice(a, b)\<close> for \<open>0 \<le> a\<close> and \<open>0 \<le> b\<close>.\<close>

definition slice :: "string \<Rightarrow> nat \<Rightarrow> nat \<Rightarrow> string" where
  "slice s a b = take (b - a) (drop a s)"

text \<open>
  \<open>s.replace(/[...]+/g, " ")\<close> for a character class \<open>P\<close>: every maximal run of
  characters of the class becomes one space.
\<close>

function replaceRuns :: "(char \<Rightarrow> bool) \<Rightarrow> string \<Rightarrow> string" where
  "replaceRuns P [] = []"
| "replaceRuns P (c # cs) =
     (if P c then CHR '' '' # replaceRuns P (dropWhile P cs) else c # replaceRuns P cs)"
  by pat_completeness auto
termination
  by (relation "measure (\<lambda>(P, s). length s)") (auto simp: length_dropWhile_le less_Suc_eq_le)

definition MAX_RESULTS :: nat where
  "MAX_RESULTS = 8"

text \<open>\<open>buildSnippet\<close> of \<open>navigation-menu.tsx\<close>.\<close>

definition buildSnippet :: "string \<Rightarrow> string \<Rightarrow> string" where
  "buildSnippet content normalizedQuery =
     (if normalizedQuery = [] then trim (slice content 0 140)
      else
        let lowerContent = toLowerCase content;
            radius = (80 :: nat)
        in (case indexOf lowerContent normalizedQuery of
              None \<Rightarrow> trim (slice content 0 160)
            | Some matchIndex \<Rightarrow>
                let start = matchIndex - radius;
                    end = min (length content) (matchIndex + length normalizedQuery + radius);
                    snippet0 = trim (slice content start end);
                    snippet1 = (if 0 < start then ''...'' @ snippet0 else snippet0);
                    snippet2 = (if end < length content then snippet1 @ ''...'' else snippet1)
                in replaceRuns isSpace snippet2))"

text \<open>
  The fields of the record types of the source carry the name of their type in front:
  \<open>entry_title\<close> is the field \<open>title\<close> of a \<open>DocIndexEntry\<close>.
\<close>

record DocIndexEntry =
  entry_slug :: "string list"
  entry_title :: string
  entry_content :: string

record DocLink = DocIndexEntry +
  link_href :: string

record SearchResult =
  result_doc :: DocLink
  result_snippet :: string

text \<open>
  The \<open>results\<close> of the \<open>Search\<close> component as a function of its \<open>docs\<close> and of the text
  in the input field: \<open>map\<close> to a result or \<open>null\<close>, \<open>filter\<close> the nulls out,
  \<open>slice(0, MAX_RESULTS)\<close>.
\<close>

definition searchEntry :: "string \<Rightarrow> DocLink \<Rightarrow> SearchResult option" where
  "searchEntry normalizedQuery doc =
     (let haystack = toLowerCase (entry_title doc @ '' '' @ link_href doc @ '' '' @ entry_content doc)
      in if \<not> includesStr haystack normalizedQuery then None
         else Some \<lparr>result_doc = doc,
                     result_snippet = buildSnippet (entry_content doc) normalizedQuery\<rparr>)"

definition Search :: "DocLink list \<Rightarrow> string \<Rightarrow> SearchResult list" where
  "Search docs query =
     (let normalizedQuery = toLowerCase (trim query)
      in if normalizedQuery = [] then []
         else take MAX_RESULTS
                (map the (filter (\<lambda>entry. entry \<noteq> None) (map (searchEntry normalizedQuery) docs))))"

text \<open>\<open>docLinks\<close> of \<open>NavigationMenu\<close>: every index entry with its href.\<close>

definition docLinks :: "DocIndexEntry list \<Rightarrow> DocLink list" where
  "docLinks docs =
     map (\<lambda>doc. DocIndexEntry.extend doc \<lparr>link_href = slugToHref (entry_slug doc)\<rparr>) docs"

section \<open>Plain text of a document body\<close>

text \<open>
  \<open>stripMarkdown\<close> of \<open>lib/mdx.ts\<close> is a chain of six global regular-expression
  replacements and a \<open>trim\<close>. Each replacement is a left-to-right scan: at a position
  where the expression matches, the match becomes one space and the scan goes on behind
  it; elsewhere the character is kept.
\<close>

text \<open>\<^verbatim>\<open>/```[\s\S]*?```/g\<close>: an opening fence up to the nearest closing fence.\<close>

function replaceFences :: "string \<Rightarrow> string" where
  "replaceFences [] = []"
| "replaceFences (c # cs) =
     (if prefix ''```'' (c # cs) then
        (case indexOf (drop 3 (c # cs)) ''```'' of
           Some j \<Rightarrow> CHR '' '' # replaceFences (drop (3 + j + 3) (c # cs))
         | None \<Rightarrow> c # replaceFences cs)
      else c # replaceFences cs)"
  by pat_completeness auto
termination
  by (relation "measure length") auto

text \<open>\<^verbatim>\<open>/`[^`]*`/g\<close>: a backtick up to the next backtick.\<close>

function replaceInlineCode :: "string \<Rightarrow> string" where
  "replaceInlineCode [] = []"
| "replaceInlineCode (c # cs) =
     (if c = CHR 0x60 \<and> CHR 0x60 \<in> set cs
      then CHR '' '' # replaceInlineCode (tl (dropWhile (\<lambda>x. x \<noteq> CHR 0x60) cs))
      else c # replaceInlineCode cs)"
  by pat_completeness auto
termination
proof (relation "measure length")
  fix c :: char and cs :: string
  have "length (dropWhile (\<lambda>x. x \<noteq> CHR 0x60) cs) \<le> length cs"
    by (rule length_dropWhile_le)
  then show "(tl (dropWhile (\<lambda>x. x \<noteq> CHR 0x60) cs), c # cs) \<in> measure length"
    by simp
qed simp_all

text \<open>
  \<^verbatim>\<open>/\[[^\]]*\]\([^\)]*\)/g\<close> matched at the head of a string: the text behind the match,
  if there is one. The two starred classes cannot give a character back, so the match is
  the run up to the first \<open>]\<close>, then \<open>(\<close>, then the run up to the first \<open>)\<close>.
\<close>

definition matchLink :: "string \<Rightarrow> string option" where
  "matchLink s =
     (case s of
        [] \<Rightarrow> None
      | c # cs \<Rightarrow>
          if c \<noteq> CHR ''['' then None
          else let r = dropWhile (\<lambda>x. x \<noteq> CHR '']'') cs
               in if \<not> prefix '']('' r then None
                  else let r2 = dropWhile (\<lambda>x. x \<noteq> CHR '')'') (drop 2 r)
                       in if r2 = [] then None else Some (tl r2))"

text \<open>\<^verbatim>\<open>/!\[[^\]]*\]\([^\)]*\)/g\<close>: the same behind an exclamation mark.\<close>

definition matchImage :: "string \<Rightarrow> string option" where
  "matchImage s = (case s of [] \<Rightarrow> None | c # cs \<Rightarrow> if c = CHR ''!'' then matchLink cs else None)"

text \<open>
  The global replacement of an expression given by its matcher at the head of a string;
  the matchers above give back a proper suffix.
\<close>

function replaceMatches :: "(string \<Rightarrow> string option) \<Rightarrow> string \<Rightarrow> string" where
  "replaceMatches m [] = []"
| "replaceMatches m (c # cs) =
     (case m (c # cs) of
        Some r \<Rightarrow> (if length r < length (c # cs) then CHR '' '' # replaceMatches m r
                   else c # replaceMatches m cs)
      | None \<Rightarrow> c # replaceMatches m cs)"
  by pat_completeness auto
termination
  by (relation "measure (\<lambda>(m, s). length s)") auto

text \<open>The class \<^verbatim>\<open>[\*_~>#-]\<close>.\<close>

definition isMarker :: "char \<Rightarrow> bool" where
  "isMarker c = (c \<in> set ''*_~>#-'')"

definition stripMarkdown :: "string \<Rightarrow> string" where
  "stripMarkdown v =
     trim (replaceRuns isSpace (replaceRuns isMarker
       (replaceMatches matchLink (replaceMatches matchImage
         (replaceInlineCode (replaceFences v))))))"

text \<open>
  \<open>humanizeName\<close> of \<open>navigation-menu.tsx\<close>: \<^verbatim>\<open>/[-_]/g\<close> replaces each hyphen and
  underscore by a space, \<^verbatim>\<open>/\s+/g\<close> collapses white space, \<^verbatim>\<open>/\b\w/g\<close> puts the first
  character of every word into upper case, and \<open>trim\<close>.
\<close>

definition isWordChar :: "char \<Rightarrow> bool" where
  "isWordChar c =
     (let n = (of_char c :: nat)
      in (48 \<le> n \<and> n \<le> 57) \<or> (65 \<le> n \<and> n \<le> 90) \<or> (97 \<le> n \<and> n \<le> 122) \<or> n = 95)"

definition upperWordChar :: "char \<Rightarrow> char" where
  "upperWordChar c =
     (let n = (of_char c :: nat) in if 97 \<le> n \<and> n \<le> 122 then char_of (n - 32) else c)"

fun capitalizeWords :: "bool \<Rightarrow> string \<Rightarrow> string" where
  "capitalizeWords prevWord [] = []"
| "capitalizeWords prevWord (c # cs) =
     (if isWordChar c \<and> \<not> prevWord then upperWordChar c # capitalizeWords True cs
      else c # capitalizeWords (isWordChar c) cs)"

definition humanizeName :: "string \<Rightarrow> string" where
  "humanizeName v =
     trim (capitalizeWords False (replaceRuns isSpace
       (map (\<lambda>c. if c = CHR ''-'' \<or> c = CHR ''_'' then CHR '' '' else c) v)))"

section \<open>Paths and the file system\<close>

text \<open>
  \<open>path.normalize\<close> and \<open>path.join\<close> of Node.js on a POSIX system. \<open>normalizeSegs\<close> is
  the loop of \<open>normalizeString\<close> over the pieces between slashes: empty pieces and \<open>.\<close> are
  dropped, \<open>..\<close> removes the piece before it, and it stays only in a relative path
  (\<open>allowAboveRoot\<close>) that has nothing left to remove.
\<close>

fun normalizeSegs :: "bool \<Rightarrow> string list \<Rightarrow> string list \<Rightarrow> string list" where
  "normalizeSegs allowAboveRoot res [] = res"
| "normalizeSegs allowAboveRoot res (seg # segs) =
     (if seg = [] \<or> seg = ''.'' then normalizeSegs allowAboveRoot res segs
      else if seg = ''..'' then
        (if res \<noteq> [] \<and> last res \<noteq> ''..'' then normalizeSegs allowAboveRoot (butlast res) segs
         else if allowAboveRoot then normalizeSegs allowAboveRoot (res @ [''..'']) segs
         else normalizeSegs allowAboveRoot res segs)
      else normalizeSegs allowAboveRoot (res @ [seg]) segs)"

definition normalize :: "string \<Rightarrow> string" where
  "normalize p =
     (if p = [] then ''.''
      else
        let isAbsolute = (hd p = CHR ''/'');
            trailingSeparator = (last p = CHR ''/'');
            q = join ''/'' (normalizeSegs (\<not> isAbsolute) [] (splitOn CHR ''/'' p))
        in if q = [] then (if isAbsolute then ''/'' else if trailingSeparator then ''./'' else ''.'')
           else (if isAbsolute then ''/'' else []) @ q @ (if trailingSeparator then ''/'' else []))"

definition path_join :: "string list \<Rightarrow> string" where
  "path_join args =
     (let joined = join ''/'' (filter (\<lambda>a. a \<noteq> []) args)
      in if joined = [] then ''.'' else normalize joined)"

text \<open>
  The content of the disk at the time of a request: a tree of regular files (with their
  text), directories (their entries in the order \<open>readdir\<close> reports them) and anything
  else, for which \<open>isFile()\<close> and \<open>isDirectory()\<close> are both false.
\<close>

datatype fsnode = File string | Dir "(string \<times> fsnode) list" | Other

datatype errno = ENOENT | ENOTDIR | EISDIR | EINVAL

fun isDirectory :: "fsnode \<Rightarrow> bool" where
  "isDirectory (Dir _) = True"
| "isDirectory _ = False"

fun isFile :: "fsnode \<Rightarrow> bool" where
  "isFile (File _) = True"
| "isFile _ = False"

fun resolve :: "fsnode \<Rightarrow> string list \<Rightarrow> errno + fsnode" where
  "resolve n [] = Inr n"
| "resolve (Dir entries) (p # ps) =
     (case map_of entries p of None \<Rightarrow> Inl ENOENT | Some child \<Rightarrow> resolve child ps)"
| "resolve _ (p # ps) = Inl ENOTDIR"

text \<open>
  \<open>fs.stat\<close> of an absolute path. Every path that reaches the file system here comes
  out of \<open>path.join\<close>, so it has no \<open>.\<close>, no \<open>..\<close> and no empty piece left; a trailing
  slash asks for a directory.
\<close>

definition fs_stat :: "fsnode \<Rightarrow> string \<Rightarrow> errno + fsnode" where
  "fs_stat root p =
     (case resolve root (filter (\<lambda>seg. seg \<noteq> []) (splitOn CHR ''/'' p)) of
        Inl e \<Rightarrow> Inl e
      | Inr n \<Rightarrow> if endsWith p ''/'' \<and> \<not> isDirectory n then Inl ENOTDIR else Inr n)"

definition fs_readdir :: "fsnode \<Rightarrow> string \<Rightarrow> errno + (string \<times> fsnode) list" where
  "fs_readdir root p =
     (case fs_stat root p of
        Inl e \<Rightarrow> Inl e
      | Inr (Dir entries) \<Rightarrow> Inr entries
      | Inr _ \<Rightarrow> Inl ENOTDIR)"

definition fs_readFile :: "fsnode \<Rightarrow> string \<Rightarrow> errno + string" where
  "fs_readFile root p =
     (case fs_stat root p of
        Inl e \<Rightarrow> Inl e
      | Inr (File text) \<Rightarrow> Inr text
      | Inr (Dir _) \<Rightarrow> Inl EISDIR
      | Inr Other \<Rightarrow> Inl EINVAL)"

text \<open>The process: the disk and the working directory (an absolute path).\<close>

record env =
  env_root :: fsnode
  env_cwd :: string

definition CONTENT_EXTENSION :: string where
  "CONTENT_EXTENSION = ''.mdx''"

definition CONTENT_ROOT :: "env \<Rightarrow> string" where
  "CONTENT_ROOT e = path_join [env_cwd e, ''content'']"

section \<open>Errors\<close>

text \<open>
  Every \<open>throw\<close> of the source is a value:
  \<^item> \<open>SlugEmpty\<close>: "Slug must contain at least one segment";
  \<^item> \<open>InvalidSlugSegment s\<close>: "Invalid slug segment: s";
  \<^item> \<open>PathDoesNotExist\<close>: "Requested path does not exist";
  \<^item> \<open>NotADirectory\<close>: "Requested slug is not a directory";
  \<^item> \<open>CircularInclude k\<close>: "Circular Include detected for slug k";
  \<^item> \<open>IncludeEmptySlug\<close>: "Include component requires a non-empty slug";
  \<^item> \<open>NotFound\<close>: the error that \<open>notFound()\<close> of the framework throws;
  \<^item> \<open>FsError e\<close>: a rejected file-system call;
  \<^item> \<open>ParseError\<close>: a source that the front-matter or MDX library rejects.
\<close>

datatype error =
    SlugEmpty
  | InvalidSlugSegment string
  | PathDoesNotExist
  | NotADirectory
  | CircularInclude string
  | IncludeEmptySlug
  | NotFound
  | FsError errno
  | ParseError

text \<open>\<open>Promise.all\<close>: all the results, or the error of the first one that failed.\<close>

fun promiseAll :: "(error + 'a) list \<Rightarrow> error + 'a list" where
  "promiseAll [] = Inr []"
| "promiseAll (Inl e # rs) = Inl e"
| "promiseAll (Inr x # rs) = (case promiseAll rs of Inl e \<Rightarrow> Inl e | Inr xs \<Rightarrow> Inr (x # xs))"

text \<open>
  \<open>Array.prototype.sort\<close> with a comparator: a stable sort, here by insertion. An element
  goes in front of the first one that the comparator does not put before it.
\<close>

fun insertBy :: "('a \<Rightarrow> 'a \<Rightarrow> int) \<Rightarrow> 'a \<Rightarrow> 'a list \<Rightarrow> 'a list" where
  "insertBy cmp x [] = [x]"
| "insertBy cmp x (y # ys) = (if cmp x y \<le> 0 then x # y # ys else y # insertBy cmp x ys)"

definition sortBy :: "('a \<Rightarrow> 'a \<Rightarrow> int) \<Rightarrow> 'a list \<Rightarrow> 'a list" where
  "sortBy cmp xs = foldr (insertBy cmp) xs []"

text \<open>\<open>xs.filter(x => x !== null)\<close> on the results of a \<open>map\<close>.\<close>

definition nonNull :: "'a option list \<Rightarrow> 'a list" where
  "nonNull xs = map the (filter (\<lambda>x. x \<noteq> None) xs)"

section \<open>Reading documents\<close>

text \<open>\<open>assertSafeSlug\<close> and \<open>readMdxFile\<close> of \<open>lib/mdx.ts\<close>.\<close>

definition assertSafeSlug :: "string list \<Rightarrow> error + unit" where
  "assertSafeSlug slug =
     (if slug = [] then Inl SlugEmpty
      else (case find (\<lambda>segment. \<not> safeSegment segment) slug of
              Some segment \<Rightarrow> Inl (InvalidSlugSegment segment)
            | None \<Rightarrow> Inr ()))"

definition readMdxFile :: "env \<Rightarrow> string list \<Rightarrow> error + (string \<times> string)" where
  "readMdxFile e slug =
     (case assertSafeSlug slug of
        Inl err \<Rightarrow> Inl err
      | Inr _ \<Rightarrow>
          let relativeFilePath = path_join slug @ CONTENT_EXTENSION;
              filePath = path_join [CONTENT_ROOT e, relativeFilePath]
          in (case fs_readFile (env_root e) filePath of
                Inl err \<Rightarrow> Inl (FsError err)
              | Inr source \<Rightarrow> Inr (source, filePath)))"

text \<open>
  Front matter is an open mapping from keys to values; the code only asks whether the
  value under \<open>title\<close> is a string.
\<close>

datatype fmvalue = VString string | VNumber int | VBool bool | VArray "fmvalue list" | VNull

type_synonym frontmatter = "(string \<times> fmvalue) list"

text \<open>\<^verbatim>\<open>typeof data.title === "string" ? data.title : undefined\<close>.\<close>

definition titleOf :: "frontmatter \<Rightarrow> string option" where
  "titleOf data = (case map_of data ''title'' of Some (VString t) \<Rightarrow> Some t | _ \<Rightarrow> None)"

section \<open>The document tree\<close>

datatype nodeType = TFile | TDirectory

text \<open>\<open>DocNode\<close>: \<open>children\<close> is present on directories only.\<close>

datatype DocNode =
  DocNode (node_type: nodeType) (node_name: string) (node_slug: "string list")
    (node_filePath: string) (node_children: "DocNode list option")

text \<open>
  Two library functions are parameters of the model: \<open>localeCompare\<close>, the collation of
  the JavaScript engine, and \<open>matter\<close>, the front-matter parser, which gives the data
  and the remaining content of a source or rejects it.
\<close>

type_synonym collation = "string \<Rightarrow> string \<Rightarrow> int"

type_synonym matter = "string \<Rightarrow> error + (frontmatter \<times> string)"

text \<open>\<open>entry.name.slice(0, -CONTENT_EXTENSION.length)\<close>.\<close>

definition baseNameOf :: "string \<Rightarrow> string" where
  "baseNameOf entryName = take (length entryName - length CONTENT_EXTENSION) entryName"

text \<open>
  \<open>collectDocs\<close> of \<open>lib/mdx.ts\<close>, on the entries that \<open>readdir\<close> reports for \<open>dirPath\<close>;
  \<open>collectEntry\<close> is the function that it maps over the entries. The recursive call
  reads the directory of an entry that is a directory: it gets the entries of that entry.
\<close>

fun collectDocs :: "collation \<Rightarrow> (string \<times> fsnode) list \<Rightarrow> string \<Rightarrow> string list \<Rightarrow> DocNode list"
  and collectEntry :: "collation \<Rightarrow> string \<Rightarrow> string list \<Rightarrow> string \<times> fsnode \<Rightarrow> DocNode option"
where
  "collectDocs localeCompare entries dirPath ancestorSlug =
     sortBy (\<lambda>a b. localeCompare (node_name a) (node_name b))
       (nonNull (map (collectEntry localeCompare dirPath ancestorSlug) entries))"
| "collectEntry localeCompare dirPath ancestorSlug (entryName, Dir childEntries) =
     (let directorySlug = ancestorSlug @ [entryName];
          children = collectDocs localeCompare childEntries
                       (path_join [dirPath, entryName]) directorySlug
      in if children = [] then None
         else Some (DocNode TDirectory entryName directorySlug
                      (path_join [dirPath, entryName]) (Some children)))"
| "collectEntry localeCompare dirPath ancestorSlug (entryName, File _) =
     (if \<not> endsWith entryName CONTENT_EXTENSION then None
      else let baseName = baseNameOf entryName;
               fileSlug = ancestorSlug @ [baseName]
           in Some (DocNode TFile baseName fileSlug (path_join [dirPath, entryName]) None))"
| "collectEntry localeCompare dirPath ancestorSlug (entryName, Other) = None"

definition getDocsTree :: "collation \<Rightarrow> env \<Rightarrow> error + DocNode list" where
  "getDocsTree localeCompare e =
     (case fs_readdir (env_root e) (CONTENT_ROOT e) of
        Inl err \<Rightarrow> Inl (FsError err)
      | Inr entries \<Rightarrow> Inr (collectDocs localeCompare entries (CONTENT_ROOT e) []))"

text \<open>\<open>walk\<close> of \<open>getAllDocSlugs\<close>: the slugs of the files of a node, in tree order.\<close>

fun walk :: "DocNode \<Rightarrow> string list list" where
  "walk (DocNode t name slug filePath children) =
     (if t = TFile then [slug]
      else (case children of None \<Rightarrow> [] | Some cs \<Rightarrow> concat (map walk cs)))"

definition getAllDocSlugs :: "collation \<Rightarrow> env \<Rightarrow> error + string list list" where
  "getAllDocSlugs localeCompare e =
     (case getDocsTree localeCompare e of
        Inl err \<Rightarrow> Inl err
      | Inr tree \<Rightarrow> Inr (concat (map walk tree)))"

section \<open>One level of the tree\<close>

record DocListItem =
  item_type :: nodeType
  item_name :: string
  item_slug :: "string list"
  item_hasChildren :: "bool option"
  item_title :: "string option"

text \<open>The comparator of \<open>getChildNodes\<close>: the type first, then the name.\<close>

definition compareItems :: "collation \<Rightarrow> DocListItem \<Rightarrow> DocListItem \<Rightarrow> int" where
  "compareItems localeCompare a b =
     (if item_type a \<noteq> item_type b then (if item_type a = TDirectory then - 1 else 1)
      else localeCompare (item_name a) (item_name b))"

text \<open>The item of one entry of the listed directory, \<open>null\<close> for an entry that is left out.\<close>

definition childItem :: "matter \<Rightarrow> string list \<Rightarrow> string \<times> fsnode \<Rightarrow> error + DocListItem option" where
  "childItem matter slug ent =
     (case ent of (entryName, entry) \<Rightarrow>
        if startsWith entryName ''.'' then Inr None
        else (case entry of
                Dir childEntries \<Rightarrow>
                  let directorySlug = slug @ [entryName];
                      hasChildren = list_ex (\<lambda>(childName, child).
                          if isDirectory child then True
                          else isFile child \<and> endsWith childName CONTENT_EXTENSION) childEntries
                  in Inr (Some \<lparr>item_type = TDirectory, item_name = entryName,
                                item_slug = directorySlug, item_hasChildren = Some hasChildren,
                                item_title = None\<rparr>)
              | File source \<Rightarrow>
                  if \<not> endsWith entryName CONTENT_EXTENSION then Inr None
                  else let baseName = baseNameOf entryName;
                           fileSlug = slug @ [baseName]
                       in (case matter source of
                             Inl err \<Rightarrow> Inl err
                           | Inr (data, _) \<Rightarrow>
                               Inr (Some \<lparr>item_type = TFile, item_name = baseName,
                                           item_slug = fileSlug, item_hasChildren = None,
                                           item_title = titleOf data\<rparr>))
              | Other \<Rightarrow> Inr None))"

text \<open>
  \<open>getChildNodes\<close> of \<open>lib/mdx.ts\<close>. The directory and the files of an entry are read
  through the entry, as in \<open>collectDocs\<close>.
\<close>

definition getChildNodes :: "collation \<Rightarrow> matter \<Rightarrow> env \<Rightarrow> string list \<Rightarrow> error + DocListItem list" where
  "getChildNodes localeCompare matter e slug =
     (let targetPath = path_join (CONTENT_ROOT e # slug)
      in (case fs_stat (env_root e) targetPath of
            Inl _ \<Rightarrow> Inl PathDoesNotExist
          | Inr stat \<Rightarrow>
              if \<not> isDirectory stat then Inl NotADirectory
              else (case fs_readdir (env_root e) targetPath of
                      Inl err \<Rightarrow> Inl (FsError err)
                    | Inr entries \<Rightarrow>
                        (case promiseAll (map (childItem matter slug) entries) of
                           Inl err \<Rightarrow> Inl err
                         | Inr items \<Rightarrow> Inr (sortBy (compareItems localeCompare) (nonNull items))))))"

text \<open>
  The route \<open>GET /api/docs/tree\<close>: the query parameter \<open>slug\<close> (absent: \<open>None\<close>) is split
  at the slashes, the pieces are trimmed and the empty ones dropped. Any error becomes a
  response with status 400.
\<close>

datatype response = Json200 "DocListItem list" | Json400 error

definition GET :: "collation \<Rightarrow> matter \<Rightarrow> env \<Rightarrow> string option \<Rightarrow> response" where
  "GET localeCompare matter e slugParam =
     (let slug = (case slugParam of
                    None \<Rightarrow> []
                  | Some param \<Rightarrow>
                      if param = [] then []
                      else filter (\<lambda>segment. segment \<noteq> []) (map trim (splitOn CHR ''/'' param)))
      in (case getChildNodes localeCompare matter e slug of
            Inr items \<Rightarrow> Json200 items
          | Inl err \<Rightarrow> Json400 err))"

section \<open>The search index\<close>

text \<open>
  \<open>visit\<close> of \<open>getDocsIndex\<close>: the entries that a node pushes. After \<open>readMdxFile\<close> has
  accepted the slug it has a last segment.
\<close>

fun visit :: "matter \<Rightarrow> env \<Rightarrow> DocNode \<Rightarrow> error + DocIndexEntry list" where
  "visit matter e (DocNode t name slug filePath children) =
     (if t = TFile then
        (case readMdxFile e slug of
           Inl err \<Rightarrow> Inl err
         | Inr (source, _) \<Rightarrow>
             (case matter source of
                Inl err \<Rightarrow> Inl err
              | Inr (data, content) \<Rightarrow>
                  let title = (case titleOf data of Some t \<Rightarrow> t | None \<Rightarrow> last slug)
                  in Inr [\<lparr>entry_slug = slug, entry_title = title,
                           entry_content = stripMarkdown content\<rparr>]))
      else (case children of
              None \<Rightarrow> Inr []
            | Some cs \<Rightarrow>
                (case promiseAll (map (visit matter e) cs) of
                   Inl err \<Rightarrow> Inl err
                 | Inr ess \<Rightarrow> Inr (concat ess))))"

definition getDocsIndex :: "collation \<Rightarrow> matter \<Rightarrow> env \<Rightarrow> error + DocIndexEntry list" where
  "getDocsIndex localeCompare matter e =
     (case getDocsTree localeCompare e of
        Inl err \<Rightarrow> Inl err
      | Inr tree \<Rightarrow>
          (case promiseAll (map (visit matter e) tree) of
             Inl err \<Rightarrow> Inl err
           | Inr ess \<Rightarrow>
               Inr (sortBy (\<lambda>a b. localeCompare (entry_title a) (entry_title b)) (concat ess))))"

section \<open>Composition of a page\<close>

text \<open>
  The MDX library is a parameter: \<open>compileMDX\<close> parses a source into its front matter and
  the elements of its body, or rejects it. Of the elements only the \<open>Include\<close> tags matter
  here; \<open>IncludeTag s\<close> is \<^verbatim>\<open><Include slug="s" />\<close> and everything else is \<open>Text\<close>.

  The library gives back an element that the framework renders afterwards, and rendering
  calls the \<open>Include\<close> component once for every tag. A rendered body has the outcome of
  each of these calls in the place of the tag: \<open>RInclude (Inl err)\<close> for a call that threw
  \<open>err\<close>, \<open>RInclude (Inr content)\<close> for a call that returned the content of the included
  document.
\<close>

datatype element = Text string | IncludeTag string

type_synonym mdxlib = "string \<Rightarrow> error + (frontmatter \<times> element list)"

datatype rendered = RText string | RInclude "error + rendered list"

text \<open>\<^verbatim>\<open>slug.split("/").map((segment) => segment.trim()).filter(Boolean)\<close>.\<close>

definition includeSlugOf :: "string \<Rightarrow> string list" where
  "includeSlugOf slug = filter (\<lambda>segment. segment \<noteq> []) (map trim (splitOn CHR ''/'' slug))"

text \<open>
  The keys of the \<open>Include\<close> tags that stand in some file of the disk. They are
  finitely many, and they bound the recursion of the composition below: a call below the
  first one is for one of these tags, and every call of \<open>compileMdx\<close> that goes on
  adds its key to \<open>visited\<close>.
\<close>

fun fileTexts :: "fsnode \<Rightarrow> string list" where
  "fileTexts (File text) = [text]"
| "fileTexts (Dir entries) = concat (map (\<lambda>(name, child). fileTexts child) entries)"
| "fileTexts Other = []"

definition includeKeys :: "mdxlib \<Rightarrow> env \<Rightarrow> string set" where
  "includeKeys compileMDX e =
     set (concat (map (\<lambda>text. case compileMDX text of
                                 Inl _ \<Rightarrow> []
                               | Inr (_, body) \<Rightarrow>
                                   concat (map (\<lambda>el. case el of
                                                       Text _ \<Rightarrow> []
                                                     | IncludeTag s \<Rightarrow> [join ''/'' (includeSlugOf s)])
                                             body))
                  (fileTexts (env_root e))))"

lemma resolve_fileTexts: "resolve n ps = Inr (File text) \<Longrightarrow> text \<in> set (fileTexts n)"
proof (induction n ps rule: resolve.induct)
  case (2 entries p ps)
  then obtain child where c: "map_of entries p = Some child" "resolve child ps = Inr (File text)"
    by (auto split: option.splits)
  then have "(p, child) \<in> set entries" by (simp add: map_of_SomeD)
  moreover have "text \<in> set (fileTexts child)" using 2 c by simp
  ultimately show ?case by auto
qed auto

lemma fs_readFile_fileTexts: "fs_readFile r p = Inr text \<Longrightarrow> text \<in> set (fileTexts r)"
  by (auto simp: fs_readFile_def fs_stat_def split: sum.splits fsnode.splits if_splits
           dest: resolve_fileTexts)

lemma readMdxFile_fileTexts:
  "readMdxFile e slug = Inr (source, fp) \<Longrightarrow> source \<in> set (fileTexts (env_root e))"
  by (auto simp: readMdxFile_def Let_def split: sum.splits dest: fs_readFile_fileTexts)

lemma includeKeys_member:
  "source \<in> set (fileTexts (env_root e)) \<Longrightarrow> compileMDX source = Inr (fm, body) \<Longrightarrow>
   IncludeTag s \<in> set body \<Longrightarrow> join ''/'' (includeSlugOf s) \<in> includeKeys compileMDX e"
  unfolding includeKeys_def
  by (auto intro!: bexI[of _ source] bexI[of _ "IncludeTag s"])

lemma finite_includeKeys: "finite (includeKeys compileMDX e)"
  unfolding includeKeys_def by (rule finite_set)

text \<open>
  \<open>compileMdx\<close> and the \<open>Include\<close> component made by \<open>createIncludeComponent\<close>, of
  \<open>mdx-renderer.tsx\<close>; \<open>renderElement\<close> is the rendering of one element of the body by
  the framework, which calls the component for a tag.

  \<open>compileMdx\<close> changes the set it is given (\<open>visited.add(slugKey)\<close>): the second
  component of its result is that set after the call. The component is made with a copy
  of the set, \<open>new Set(visited)\<close>, and every call of the component hands a further copy
  to \<open>compileMdx\<close>: what \<open>compileMdx\<close> adds to that copy is dropped, and the calls for
  two tags of one body start from the same set.
\<close>

function compileMdx :: "mdxlib \<Rightarrow> env \<Rightarrow> string list \<Rightarrow> string set
    \<Rightarrow> (error + (rendered list \<times> frontmatter)) \<times> string set"
  and renderElement :: "mdxlib \<Rightarrow> env \<Rightarrow> string set \<Rightarrow> element \<Rightarrow> rendered"
  and createIncludeComponent :: "mdxlib \<Rightarrow> env \<Rightarrow> string set \<Rightarrow> string \<Rightarrow> error + rendered list"
where
  "compileMdx compileMDX e slug visited =
     (if join ''/'' slug \<in> visited then (Inl (CircularInclude (join ''/'' slug)), visited)
      else (case readMdxFile e slug of
              Inl err \<Rightarrow>
                (if err = FsError ENOENT then Inl NotFound else Inl err,
                 insert (join ''/'' slug) visited)
            | Inr (source, _) \<Rightarrow>
                (case compileMDX source of
                   Inl err \<Rightarrow> (Inl err, insert (join ''/'' slug) visited)
                 | Inr (frontmatter, body) \<Rightarrow>
                     (Inr (map (renderElement compileMDX e (insert (join ''/'' slug) visited)) body,
                           frontmatter),
                      insert (join ''/'' slug) visited))))"
| "renderElement compileMDX e visited (Text t) = RText t"
| "renderElement compileMDX e visited (IncludeTag s) =
     RInclude (createIncludeComponent compileMDX e visited s)"
| "createIncludeComponent compileMDX e visited slug =
     (if includeSlugOf slug = [] then Inl IncludeEmptySlug
      else (case fst (compileMdx compileMDX e (includeSlugOf slug) visited) of
              Inl err \<Rightarrow> Inl err
            | Inr (content, _) \<Rightarrow> Inr content))"
  by pat_completeness auto

termination
proof (relation "inv_image (less_than <*lex*> less_than)
    (\<lambda>x. case x of
        Inl (lib, e, slug, visited) \<Rightarrow>
          (card (insert (join ''/'' slug) (includeKeys lib e) - visited), 0::nat)
      | Inr (Inl (lib, e, visited, el)) \<Rightarrow>
          (card ((case el of Text _ \<Rightarrow> {} | IncludeTag s \<Rightarrow> {join ''/'' (includeSlugOf s)})
                   \<union> includeKeys lib e - visited), 2)
      | Inr (Inr (lib, e, visited, s)) \<Rightarrow>
          (card (insert (join ''/'' (includeSlugOf s)) (includeKeys lib e) - visited), 1))",
    goal_cases)
  case 1
  show ?case by (intro wf_inv_image wf_lex_prod wf_less_than)
next
  case (2 compileMDX e slug visited x2 source y x2a fm body el)
  have K: "finite (includeKeys compileMDX e)" by (rule finite_includeKeys)
  have sub: "(case el of Text _ \<Rightarrow> {} | IncludeTag s \<Rightarrow> {join ''/'' (includeSlugOf s)})
               \<subseteq> includeKeys compileMDX e"
  proof (cases el)
    case (Text t)
    then show ?thesis by simp
  next
    case (IncludeTag s)
    with 2 have "join ''/'' (includeSlugOf s) \<in> includeKeys compileMDX e"
      by (auto intro!: includeKeys_member dest: readMdxFile_fileTexts)
    with IncludeTag show ?thesis by simp
  qed
  have "(case el of Text _ \<Rightarrow> {} | IncludeTag s \<Rightarrow> {join ''/'' (includeSlugOf s)})
          \<union> includeKeys compileMDX e - insert (join ''/'' slug) visited
        \<subset> insert (join ''/'' slug) (includeKeys compileMDX e) - visited"
    using sub 2(1) by auto
  then have "card ((case el of Text _ \<Rightarrow> {} | IncludeTag s \<Rightarrow> {join ''/'' (includeSlugOf s)})
          \<union> includeKeys compileMDX e - insert (join ''/'' slug) visited)
        < card (insert (join ''/'' slug) (includeKeys compileMDX e) - visited)"
    using K by (intro psubset_card_mono) auto
  then show ?case by simp
next
  case (3 compileMDX e visited s)
  then show ?case by simp
next
  case (4 compileMDX e visited slug)
  then show ?case by simp
qed

declare compileMdx.simps [simp del] createIncludeComponent.simps [simp del]

text \<open>\<open>renderMdx\<close>: \<open>compileMdx(slug, new Set())\<close>.\<close>

definition renderMdx :: "mdxlib \<Rightarrow> env \<Rightarrow> string list \<Rightarrow> error + (rendered list \<times> frontmatter)" where
  "renderMdx compileMDX e slug = fst (compileMdx compileMDX e slug {})"

text \<open>
  The errors thrown while a body is rendered, in the order of the text. A page whose
  rendering throws is not served: composing it has failed with these errors.
\<close>

fun thrownIn :: "rendered \<Rightarrow> error list" where
  "thrownIn (RText t) = []"
| "thrownIn (RInclude (Inl err)) = [err]"
| "thrownIn (RInclude (Inr content)) = concat (map thrownIn content)"

text \<open>
  \<open>MDXRenderer\<close> compiles the page and puts its content into the article, which the
  framework renders: the errors of composing the page at a slug.
\<close>

definition composeErrors :: "mdxlib \<Rightarrow> env \<Rightarrow> string list \<Rightarrow> error list" where
  "composeErrors compileMDX e slug =
     (case fst (compileMdx compileMDX e slug {}) of
        Inl err \<Rightarrow> [err]
      | Inr (content, _) \<Rightarrow> concat (map thrownIn content))"

section \<open>Values for the parameters\<close>

text \<open>
  Concrete values of the three library parameters, for the examples below: a collation
  by code units, a front-matter parser that takes a first line \<open>title: t\<close> (lines end
  with \<open>|\<close>) as the title, and an MDX parser that reads \<open>|\<close>-separated lines, a line
  \<open>+s\<close> being an \<open>Include\<close> tag for \<open>s\<close>.
\<close>

definition codeUnitCompare :: collation where
  "codeUnitCompare a b = (if a < b then - 1 else if a = b then 0 else 1)"

text \<open>
  A collation that compares the lower case of the strings, as the default collation of a
  JavaScript engine does before it looks at the case: \<open>"alpha".localeCompare("Zeta")\<close>
  is negative.
\<close>

definition caseBlindCompare :: collation where
  "caseBlindCompare a b = codeUnitCompare (toLowerCase a) (toLowerCase b)"

definition sampleMatter :: matter where
  "sampleMatter source =
     (if prefix ''title: '' source
      then Inr ([(''title'', VString (takeWhile (\<lambda>c. c \<noteq> CHR ''|'') (drop 7 source)))],
                drop 1 (dropWhile (\<lambda>c. c \<noteq> CHR ''|'') source))
      else Inr ([], source))"

definition sampleMDX :: mdxlib where
  "sampleMDX source =
     (case sampleMatter source of
        Inl err \<Rightarrow> Inl err
      | Inr (data, content) \<Rightarrow>
          Inr (data, map (\<lambda>line. if prefix ''+'' line then IncludeTag (drop 1 line) else Text line)
                       (splitOn CHR ''|'' content)))"

text \<open>
  A disk for the examples: the project in \<open>/srv/app\<close>, its documents in
  \<open>/srv/app/content\<close>.
\<close>

definition sampleDisk :: fsnode where
  "sampleDisk =
     Dir [(''srv'', Dir [(''app'', Dir
       [(''content'', Dir
          [(''home.mdx'', File ''title: Home|Welcome''),
           (''guide'', Dir [(''intro.mdx'', File ''title: Intro|Welcome|+general/shared'')]),
           (''general'', Dir [(''shared.mdx'', File ''title: Shared|Shared content'')]),
           (''faq.mdx'', File ''Questions''),
           (''user-guide.mdx'', File ''# Setup''),
           (''assets'', Dir [(''logo.png'', File ''PNG'')]),
           (''empty'', Dir [])]),
        (''notes.mdx'', File ''title: Private|internal''),
        (''src'', Dir [(''page.tsx'', File ''export'')])])])]"

definition sampleEnv :: env where
  "sampleEnv = \<lparr>env_root = sampleDisk, env_cwd = ''/srv/app''\<rparr>"

section \<open>Notions of the claims\<close>

text \<open>The nodes below a node of the tree, and all the nodes of a tree.\<close>

fun descendants :: "DocNode \<Rightarrow> DocNode list" where
  "descendants (DocNode t name slug filePath children) =
     (case children of None \<Rightarrow> [] | Some cs \<Rightarrow> concat (map (\<lambda>c. c # descendants c) cs))"

definition allNodes :: "DocNode list \<Rightarrow> DocNode list" where
  "allNodes tree = concat (map (\<lambda>c. c # descendants c) tree)"

text \<open>
  The shape of the nodes that \<open>collectDocs\<close> builds: a file has no children, a directory
  has a non-empty list of children of the same shape.
\<close>

fun wellPruned :: "DocNode \<Rightarrow> bool" where
  "wellPruned (DocNode t name slug filePath children) =
     (case children of
        None \<Rightarrow> t = TFile
      | Some cs \<Rightarrow> t = TDirectory \<and> cs \<noteq> [] \<and> (\<forall>c\<in>set cs. wellPruned c))"

text \<open>
  A directory has a document when a file with the content extension lies in it or
  anywhere below it.
\<close>

fun hasDocument :: "fsnode \<Rightarrow> bool" where
  "hasDocument (Dir entries) =
     (\<exists>(entryName, entry)\<in>set entries.
        (isFile entry \<and> endsWith entryName CONTENT_EXTENSION) \<or> hasDocument entry)"
| "hasDocument _ = False"

text \<open>A node all of whose lists of children, at any depth, are in the order of the names.\<close>

fun orderedNode :: "collation \<Rightarrow> DocNode \<Rightarrow> bool" where
  "orderedNode lc (DocNode t name slug filePath children) =
     (case children of
        None \<Rightarrow> True
      | Some cs \<Rightarrow> sorted_wrt (\<lambda>a b. lc (node_name a) (node_name b) \<le> 0) cs
                   \<and> (\<forall>c\<in>set cs. orderedNode lc c))"

text \<open>The listing of the content root of the sample disk.\<close>

definition sampleListing :: "DocListItem list" where
  "sampleListing =
     [\<lparr>item_type = TDirectory, item_name = ''assets'', item_slug = [''assets''],
        item_hasChildren = Some False, item_title = None\<rparr>,
      \<lparr>item_type = TDirectory, item_name = ''empty'', item_slug = [''empty''],
        item_hasChildren = Some False, item_title = None\<rparr>,
      \<lparr>item_type = TDirectory, item_name = ''general'', item_slug = [''general''],
        item_hasChildren = Some True, item_title = None\<rparr>,
      \<lparr>item_type = TDirectory, item_name = ''guide'', item_slug = [''guide''],
        item_hasChildren = Some True, item_title = None\<rparr>,
      \<lparr>item_type = TFile, item_name = ''faq'', item_slug = [''faq''],
        item_hasChildren = None, item_title = None\<rparr>,
      \<lparr>item_type = TFile, item_name = ''home'', item_slug = [''home''],
        item_hasChildren = None, item_title = Some ''Home''\<rparr>,
      \<lparr>item_type = TFile, item_name = ''user-guide'', item_slug = [''user-guide''],
        item_hasChildren = None, item_title = None\<rparr>]"

text \<open>
  The document at a slug: the front matter and the body that the MDX library finds in the
  file that \<open>readMdxFile\<close> reads for the slug.
\<close>

definition document :: "mdxlib \<Rightarrow> env \<Rightarrow> string list \<Rightarrow> (frontmatter \<times> element list) option" where
  "document compileMDX e slug =
     (case readMdxFile e slug of
        Inl _ \<Rightarrow> None
      | Inr (source, _) \<Rightarrow> (case compileMDX source of Inl _ \<Rightarrow> None | Inr d \<Rightarrow> Some d))"

text \<open>A disk with documents that include themselves, each other, or a third one twice.\<close>

definition includeDisk :: fsnode where
  "includeDisk =
     Dir [(''srv'', Dir [(''app'', Dir
       [(''content'', Dir
          [(''loop.mdx'', File ''Start|+loop''),
           (''ping.mdx'', File ''+pong''),
           (''pong.mdx'', File ''+ping''),
           (''twice.mdx'', File ''title: Twice|+part|and again|+part''),
           (''part.mdx'', File ''title: Part|Shared content'')])])])]"

definition includeEnv :: env where
  "includeEnv = \<lparr>env_root = includeDisk, env_cwd = ''/srv/app''\<rparr>"

section \<open>Properties\<close>

subsection \<open>Strings\<close>

lemma includesStr_sublist: "includesStr hay needle = sublist needle hay"
  by (induction hay) (auto simp: sublist_Cons_right)

lemma includesStr_single: "includesStr s [c] = (c \<in> set s)"
  by (induction s) auto

lemma splitOn_free: "c \<notin> set x \<Longrightarrow> splitOn c x = [x]"
  by (induction x) auto

lemma splitOn_append: "c \<notin> set x \<Longrightarrow> splitOn c (x @ c # r) = x # splitOn c r"
  by (induction x) auto

lemma splitOn_join:
  "xs \<noteq> [] \<Longrightarrow> \<forall>x\<in>set xs. c \<notin> set x \<Longrightarrow> splitOn c (join [c] xs) = xs"
  by (induction "[c]" xs rule: join.induct) (auto simp: splitOn_free splitOn_append)

lemma join_eq_Nil: "join sep xs = [] \<Longrightarrow> \<forall>x\<in>set xs. x \<noteq> [] \<Longrightarrow> xs = []"
  by (induction sep xs rule: join.induct) auto

lemma join_inj:
  assumes "\<forall>x\<in>set xs. x \<noteq> [] \<and> c \<notin> set x" "\<forall>x\<in>set ys. x \<noteq> [] \<and> c \<notin> set x"
    and "join [c] xs = join [c] ys"
  shows "xs = ys"
proof (cases "xs = [] \<or> ys = []")
  case True
  then show ?thesis using assms join_eq_Nil[of "[c]" xs] join_eq_Nil[of "[c]" ys] by auto
next
  case False
  then have "splitOn c (join [c] xs) = xs" "splitOn c (join [c] ys) = ys"
    using assms(1,2) by (auto intro!: splitOn_join)
  then show ?thesis using assms(3) by metis
qed

lemma safeSegment_iff: "safeSegment seg \<Longrightarrow> seg \<noteq> [] \<and> CHR ''/'' \<notin> set seg"
  by (auto simp: safeSegment_def includesStr_single)

subsection \<open>Hrefs\<close>

text \<open>
  Claim C7. \<open>slugToHref\<close> sends the reserved slug \<open>["home"]\<close> to \<open>/\<close> and every other
  slug to \<open>/\<close> followed by its segments joined with \<open>/\<close>. On the slugs whose segments
  are non-empty and free of \<open>/\<close>, the root slug \<open>[]\<close> among them, it is injective outside
  \<open>["home"]\<close>, and the only other slug that has the href of \<open>["home"]\<close> is the root slug.
  The segments that \<open>assertSafeSlug\<close> accepts are of this kind (\<open>safeSegment_iff\<close>).
\<close>

theorem slugToHref_injective:
  "slugToHref [''home''] = ''/''
   \<and> (\<forall>s. s \<noteq> [''home''] \<longrightarrow> slugToHref s = ''/'' @ join ''/'' s)
   \<and> (\<forall>s t. (\<forall>seg\<in>set s. seg \<noteq> [] \<and> CHR ''/'' \<notin> set seg)
          \<and> (\<forall>seg\<in>set t. seg \<noteq> [] \<and> CHR ''/'' \<notin> set seg)
          \<and> s \<noteq> [''home''] \<and> t \<noteq> [''home''] \<and> slugToHref s = slugToHref t \<longrightarrow> s = t)
   \<and> (\<forall>s. (\<forall>seg\<in>set s. seg \<noteq> [] \<and> CHR ''/'' \<notin> set seg) \<longrightarrow>
          (slugToHref s = slugToHref [''home'']) = (s = [''home''] \<or> s = []))"
proof (intro conjI allI impI)
  show "slugToHref [''home''] = ''/''" by (simp add: slugToHref_def)
next
  fix s :: "string list" assume "s \<noteq> [''home'']"
  then show "slugToHref s = ''/'' @ join ''/'' s" by (simp add: slugToHref_def)
next
  fix s t :: "string list"
  assume a: "(\<forall>seg\<in>set s. seg \<noteq> [] \<and> CHR ''/'' \<notin> set seg)
          \<and> (\<forall>seg\<in>set t. seg \<noteq> [] \<and> CHR ''/'' \<notin> set seg)
          \<and> s \<noteq> [''home''] \<and> t \<noteq> [''home''] \<and> slugToHref s = slugToHref t"
  then have "join ''/'' s = join ''/'' t" by (auto simp: slugToHref_def)
  with a show "s = t" using join_inj[of s "CHR ''/''" t] by blast
next
  fix s :: "string list"
  assume a: "\<forall>seg\<in>set s. seg \<noteq> [] \<and> CHR ''/'' \<notin> set seg"
  show "(slugToHref s = slugToHref [''home'']) = (s = [''home''] \<or> s = [])"
  proof (cases "s = [''home'']")
    case True then show ?thesis by simp
  next
    case False
    then have "(slugToHref s = slugToHref [''home'']) = (join ''/'' s = [])"
      by (simp add: slugToHref_def)
    also have "\<dots> = (s = [])" using a join_eq_Nil[of "''/''" s] by auto
    finally show ?thesis using False by simp
  qed
qed

theorem slugToHref_injective_witness:
  "safeSegment ''guide'' \<and> safeSegment ''intro''
   \<and> slugToHref [''guide'', ''intro''] = ''/guide/intro''
   \<and> slugToHref [''guide'', ''intro''] \<noteq> slugToHref [''guide'']
   \<and> slugToHref [] = slugToHref [''home'']"
proof -
  have safe: "safeSegment ''guide''" "safeSegment ''intro''" by (simp_all add: safeSegment_def)
  note inj = slugToHref_injective [THEN conjunct2, THEN conjunct2, THEN conjunct1, rule_format,
      of "[''guide'', ''intro'']" "[''guide'']"]
  have "slugToHref [''guide'', ''intro''] \<noteq> slugToHref [''guide'']"
  proof
    assume "slugToHref [''guide'', ''intro''] = slugToHref [''guide'']"
    then have "[''guide'', ''intro''] = [''guide'']" using inj by simp
    then show False by simp
  qed
  moreover have "slugToHref [''guide'', ''intro''] = ''/guide/intro''"
    using slugToHref_injective [THEN conjunct2, THEN conjunct1, rule_format, of "[''guide'', ''intro'']"]
    by simp
  moreover have "slugToHref [] = slugToHref [''home'']"
    using slugToHref_injective [THEN conjunct2, THEN conjunct2, THEN conjunct2, rule_format, of "[]"]
    by simp
  ultimately show ?thesis using safe by blast
qed

subsection \<open>Plain text\<close>

lemma replaceRuns_set: "set (replaceRuns P s) \<subseteq> {c \<in> set s. \<not> P c} \<union> {CHR '' ''}"
proof (induction P s rule: replaceRuns.induct)
  case (2 P c cs)
  have "set (dropWhile P cs) \<subseteq> set cs" by (auto dest: set_dropWhileD)
  with 2 show ?case by (auto split: if_splits)
qed simp

lemma replaceRuns_hd:
  "s \<noteq> [] \<Longrightarrow> \<not> P (hd s) \<Longrightarrow> replaceRuns P s \<noteq> [] \<and> hd (replaceRuns P s) = hd s"
  by (cases s) auto

lemma replaceRuns_successively:
  assumes "\<And>a b. \<not> P a \<Longrightarrow> Q a b" and "\<And>a b. \<not> P b \<Longrightarrow> Q a b"
  shows "successively Q (replaceRuns P s)"
  using assms
proof (induction P s rule: replaceRuns.induct)
  case (1 P)
  then show ?case by simp
next
  case (2 P c cs)
  note l = "2.prems"(1) and r = "2.prems"(2)
  show ?case
  proof (cases "P c")
    case True
    note Pc = this
    show ?thesis
    proof (cases "dropWhile P cs")
      case Nil
      show ?thesis by (simp only: replaceRuns.simps Pc if_True Nil successively.simps)
    next
      case (Cons d ds)
      then have "\<not> P d" using hd_dropWhile[of P cs] by simp
      moreover have "successively Q (replaceRuns P (d # ds))"
        using "2.IH"(1) [OF Pc l r] Cons by simp
      moreover have "Q (CHR '' '') d" using \<open>\<not> P d\<close> by (rule r)
      ultimately show ?thesis using Pc Cons by simp
    qed
  next
    case False
    then have "successively Q (replaceRuns P cs)" using "2.IH"(2) l r by simp
    with False l show ?thesis by (cases "replaceRuns P cs") auto
  qed
qed

lemma successively_suffix: "successively Q (xs @ ys) \<Longrightarrow> successively Q ys"
  by (simp add: successively_append_iff)

lemma successively_dropWhile: "successively Q xs \<Longrightarrow> successively Q (dropWhile P xs)"
  using successively_suffix[of Q "takeWhile P xs" "dropWhile P xs"] by simp

lemma trim_successively:
  assumes sym: "\<And>a b. Q a b = Q b a" and s: "successively Q s"
  shows "successively Q (trim s)"
proof -
  have flip: "(\<lambda>x y. Q y x) = Q" using sym by auto
  have "successively Q (dropWhile isSpace s)" using s by (rule successively_dropWhile)
  then have "successively Q (rev (dropWhile isSpace s))"
    unfolding successively_rev flip .
  then have "successively Q (dropWhile isSpace (rev (dropWhile isSpace s)))"
    by (rule successively_dropWhile)
  then show ?thesis unfolding trim_def successively_rev flip .
qed

lemma trim_set: "set (trim s) \<subseteq> set s"
proof
  fix x assume "x \<in> set (trim s)"
  then have "x \<in> set (dropWhile isSpace (rev (dropWhile isSpace s)))" by (simp add: trim_def)
  then have "x \<in> set (rev (dropWhile isSpace s))" by (rule set_dropWhileD)
  then have "x \<in> set (dropWhile isSpace s)" by simp
  then show "x \<in> set s" by (rule set_dropWhileD)
qed

lemma last_dropWhile: "dropWhile P xs \<noteq> [] \<Longrightarrow> last (dropWhile P xs) = last xs"
  by (induction xs) (auto split: if_splits)

lemma trim_ends: "trim s \<noteq> [] \<Longrightarrow> \<not> isSpace (hd (trim s)) \<and> \<not> isSpace (last (trim s))"
proof -
  assume ne: "trim s \<noteq> []"
  let ?t = "dropWhile isSpace s"
  let ?u = "dropWhile isSpace (rev ?t)"
  from ne have u: "?u \<noteq> []" by (simp add: trim_def)
  have t: "?t \<noteq> []"
  proof
    assume "?t = []"
    then have "?u = []" by (simp only: rev.simps dropWhile.simps)
    with u show False by blast
  qed
  have "last (trim s) = hd ?u" using u by (simp add: trim_def last_rev)
  moreover have "\<not> isSpace (hd ?u)" using u by (rule hd_dropWhile)
  moreover have "hd (trim s) = last ?u" using u by (simp add: trim_def hd_rev)
  moreover have "last ?u = last (rev ?t)" using u by (rule last_dropWhile)
  moreover have "last (rev ?t) = hd ?t" using t by (simp add: last_rev)
  moreover have "\<not> isSpace (hd ?t)" using t by (rule hd_dropWhile)
  ultimately show ?thesis by simp
qed

lemma stripMarkdown_set:
  "c \<in> set (stripMarkdown v) \<Longrightarrow> \<not> isMarker c \<and> (isSpace c \<longrightarrow> c = CHR '' '')"
proof -
  assume c: "c \<in> set (stripMarkdown v)"
  let ?a = "replaceMatches matchLink (replaceMatches matchImage (replaceInlineCode (replaceFences v)))"
  let ?b = "replaceRuns isMarker ?a"
  let ?c = "replaceRuns isSpace ?b"
  from c have "c \<in> set ?c" using trim_set[of ?c] by (auto simp: stripMarkdown_def)
  then have 1: "(c \<in> set ?b \<and> \<not> isSpace c) \<or> c = CHR '' ''"
    using replaceRuns_set[of isSpace ?b] by auto
  have 2: "c \<in> set ?b \<Longrightarrow> \<not> isMarker c \<or> c = CHR '' ''"
    using replaceRuns_set[of isMarker ?a] by auto
  have 3: "\<not> isMarker (CHR '' '')" by (simp add: isMarker_def)
  from 1 2 3 show ?thesis by auto
qed

text \<open>
  Claim C10. For every input, the plain text that \<open>stripMarkdown\<close> gives has none of
  the characters \<open>*\<close>, \<open>_\<close>, \<open>~\<close>, \<open>>\<close>, \<open>#\<close>, \<open>-\<close>; its only white space is the
  space character and no two of them are next to each other; it neither starts nor ends
  with white space. So a hyphen or an underscore between two words has become a space,
  and a query with a hyphen (or an underscore) in it is found nowhere in the plain text.
\<close>

theorem stripMarkdown_plain:
  "(\<forall>c\<in>set (stripMarkdown v). c \<notin> set ''*_~>#-'')
   \<and> (\<forall>c\<in>set (stripMarkdown v). isSpace c \<longrightarrow> c = CHR '' '')
   \<and> successively (\<lambda>a b. \<not> (isSpace a \<and> isSpace b)) (stripMarkdown v)
   \<and> (stripMarkdown v \<noteq> [] \<longrightarrow>
        \<not> isSpace (hd (stripMarkdown v)) \<and> \<not> isSpace (last (stripMarkdown v)))
   \<and> (\<forall>q. (CHR ''-'' \<in> set q \<or> CHR ''_'' \<in> set q) \<longrightarrow> \<not> includesStr (stripMarkdown v) q)"
proof (intro conjI ballI allI impI)
  fix c assume "c \<in> set (stripMarkdown v)"
  then show "c \<notin> set ''*_~>#-''" using stripMarkdown_set[of c v] by (simp only: isMarker_def) blast
next
  fix c assume "c \<in> set (stripMarkdown v)" "isSpace c"
  then show "c = CHR '' ''" using stripMarkdown_set[of c v] by blast
next
  show "successively (\<lambda>a b. \<not> (isSpace a \<and> isSpace b)) (stripMarkdown v)"
    unfolding stripMarkdown_def
    by (rule trim_successively, blast, rule replaceRuns_successively) blast+
next
  assume "stripMarkdown v \<noteq> []"
  then show "\<not> isSpace (hd (stripMarkdown v))" "\<not> isSpace (last (stripMarkdown v))"
    using trim_ends unfolding stripMarkdown_def by blast+
next
  fix q assume q: "CHR ''-'' \<in> set q \<or> CHR ''_'' \<in> set q"
  show "\<not> includesStr (stripMarkdown v) q"
  proof
    assume "includesStr (stripMarkdown v) q"
    then have "set q \<subseteq> set (stripMarkdown v)"
      by (simp add: includesStr_sublist set_mono_sublist)
    with q obtain c where "c \<in> set (stripMarkdown v)" "c = CHR ''-'' \<or> c = CHR ''_''" by auto
    then show False using stripMarkdown_set[of c v] by (auto simp: isMarker_def)
  qed
qed

theorem stripMarkdown_plain_witness:
  "stripMarkdown ''# The user-guide  of **my_app**'' = ''The user guide of my app''
   \<and> \<not> includesStr (stripMarkdown ''# The user-guide  of **my_app**'') ''user-guide''"
proof -
  have "CHR ''-'' \<in> set ''user-guide''" by simp
  then have "\<not> includesStr (stripMarkdown ''# The user-guide  of **my_app**'') ''user-guide''"
    using stripMarkdown_plain [of "''# The user-guide  of **my_app**''"] by blast
  moreover have "stripMarkdown ''# The user-guide  of **my_app**'' = ''The user guide of my app''"
    by code_simp
  ultimately show ?thesis by blast
qed

subsection \<open>Search\<close>

lemma searchEntry_filter:
  "map the (filter (\<lambda>entry. entry \<noteq> None) (map (searchEntry q) docs)) =
   map (\<lambda>doc. \<lparr>result_doc = doc, result_snippet = buildSnippet (entry_content doc) q\<rparr>)
     (filter (\<lambda>doc. sublist q
                (toLowerCase (entry_title doc @ '' '' @ link_href doc @ '' '' @ entry_content doc)))
        docs)"
  by (induction docs) (auto simp: searchEntry_def Let_def includesStr_sublist)

lemma trim_decomposition:
  "s = takeWhile isSpace s @ trim s @ rev (takeWhile isSpace (rev (dropWhile isSpace s)))"
proof -
  let ?t = "dropWhile isSpace s"
  have "rev ?t = takeWhile isSpace (rev ?t) @ dropWhile isSpace (rev ?t)" by simp
  then have "rev (rev ?t) = rev (takeWhile isSpace (rev ?t) @ dropWhile isSpace (rev ?t))"
    by (rule arg_cong)
  then have "?t = trim s @ rev (takeWhile isSpace (rev ?t))"
    by (simp only: rev_rev_ident rev_append trim_def)
  moreover have "s = takeWhile isSpace s @ ?t" by simp
  ultimately show ?thesis by metis
qed

lemma trim_surrounded:
  "\<exists>pre post. s = pre @ trim s @ post \<and> list_all isSpace pre \<and> list_all isSpace post"
proof -
  have "list_all isSpace (takeWhile isSpace s)"
    by (auto simp: list_all_iff dest: set_takeWhileD)
  moreover have "list_all isSpace (rev (takeWhile isSpace (rev (dropWhile isSpace s))))"
    by (auto simp: list_all_iff dest: set_takeWhileD)
  ultimately show ?thesis using trim_decomposition[of s] by blast
qed

lemma of_char_lowerChar:
  "(of_char (lowerChar c) :: nat) =
     (if (65 \<le> (of_char c :: nat) \<and> (of_char c :: nat) \<le> 90)
         \<or> (192 \<le> (of_char c :: nat) \<and> (of_char c :: nat) \<le> 222 \<and> (of_char c :: nat) \<noteq> 215)
      then of_char c + 32 else of_char c)"
  by (auto simp: lowerChar_def Let_def)


text \<open>
  Claim C8, as amended. The query is normalized first: \<open>trim\<close> takes the white space
  off both ends and nothing else, and \<open>toLowerCase\<close> moves every upper-case letter up by
  32 and keeps every other character. An empty normalized query gives no result.
  Otherwise the results are the records, in the order of the input, for which the
  normalized query is a substring of the lower case of the string made of the title, one
  blank, the href, one blank and the plain text (the template string of the source), cut
  to the first 8. So there are at most 8 results, and the documents of the results are a
  subsequence of the input.
\<close>

theorem Search_results:
  "(\<exists>pre post. query = pre @ trim query @ post \<and> list_all isSpace pre \<and> list_all isSpace post)
   \<and> (trim query \<noteq> [] \<longrightarrow> \<not> isSpace (hd (trim query)) \<and> \<not> isSpace (last (trim query)))
   \<and> (\<forall>s. length (toLowerCase s) = length s
          \<and> (\<forall>i<length s. (of_char (toLowerCase s ! i) :: nat) =
                (if (65 \<le> (of_char (s ! i) :: nat) \<and> (of_char (s ! i) :: nat) \<le> 90)
                    \<or> (192 \<le> (of_char (s ! i) :: nat) \<and> (of_char (s ! i) :: nat) \<le> 222
                        \<and> (of_char (s ! i) :: nat) \<noteq> 215)
                 then of_char (s ! i) + 32 else of_char (s ! i))))
   \<and> Search docs query =
     (if toLowerCase (trim query) = [] then []
      else take 8
        (map (\<lambda>doc. \<lparr>result_doc = doc,
                       result_snippet = buildSnippet (entry_content doc) (toLowerCase (trim query))\<rparr>)
           (filter (\<lambda>doc. sublist (toLowerCase (trim query))
                      (toLowerCase (entry_title doc @ '' '' @ link_href doc @ '' '' @ entry_content doc)))
              docs)))
   \<and> length (Search docs query) \<le> 8
   \<and> subseq (map result_doc (Search docs query)) docs"
proof -
  let ?q = "toLowerCase (trim query)"
  let ?m = "\<lambda>doc. sublist ?q
              (toLowerCase (entry_title doc @ '' '' @ link_href doc @ '' '' @ entry_content doc))"
  let ?r = "\<lambda>doc. \<lparr>result_doc = doc, result_snippet = buildSnippet (entry_content doc) ?q\<rparr>"
  have tr: "\<exists>pre post. query = pre @ trim query @ post \<and> list_all isSpace pre \<and> list_all isSpace post"
    by (rule trim_surrounded)
  have ends: "trim query \<noteq> [] \<longrightarrow> \<not> isSpace (hd (trim query)) \<and> \<not> isSpace (last (trim query))"
    using trim_ends by blast
  have low: "\<forall>s. length (toLowerCase s) = length s
          \<and> (\<forall>i<length s. (of_char (toLowerCase s ! i) :: nat) =
                (if (65 \<le> (of_char (s ! i) :: nat) \<and> (of_char (s ! i) :: nat) \<le> 90)
                    \<or> (192 \<le> (of_char (s ! i) :: nat) \<and> (of_char (s ! i) :: nat) \<le> 222
                        \<and> (of_char (s ! i) :: nat) \<noteq> 215)
                 then of_char (s ! i) + 32 else of_char (s ! i)))"
    by (simp add: toLowerCase_def of_char_lowerChar)
  have eq: "Search docs query = (if ?q = [] then [] else take 8 (map ?r (filter ?m docs)))"
    by (simp only: Search_def Let_def MAX_RESULTS_def searchEntry_filter)
  have len: "length (Search docs query) \<le> 8" unfolding eq by simp
  have "map result_doc (take 8 (map ?r (filter ?m docs))) = take 8 (filter ?m docs)"
    by (simp add: take_map comp_def)
  moreover have "subseq (take 8 (filter ?m docs)) docs"
  proof -
    have "subseq (take 8 (filter ?m docs)) (filter ?m docs)"
      by (rule prefix_imp_subseq) (rule take_is_prefix)
    moreover have "subseq (filter ?m docs) docs" by (rule subseq_filter_left)
    ultimately show ?thesis by (rule subseq_order.trans)
  qed
  ultimately have sub: "subseq (map result_doc (Search docs query)) docs"
    unfolding eq by (cases "?q = []") simp_all
  from tr ends low eq len sub show ?thesis by (intro conjI)
qed

theorem Search_results_witness:
  "toLowerCase (trim ''  SHARED Content '') = ''shared content''
   \<and> map (\<lambda>r. (link_href (result_doc r), result_snippet r))
     (Search (docLinks [\<lparr>entry_slug = [''home''], entry_title = ''Home'', entry_content = ''Welcome''\<rparr>,
                        \<lparr>entry_slug = [''guide'', ''intro''], entry_title = ''Intro'',
                           entry_content = ''Shared content''\<rparr>])
        ''  SHARED Content '')
   = [(''/guide/intro'', ''Shared content'')]"
proof -
  let ?docs = "docLinks [\<lparr>entry_slug = [''home''], entry_title = ''Home'', entry_content = ''Welcome''\<rparr>,
                        \<lparr>entry_slug = [''guide'', ''intro''], entry_title = ''Intro'',
                           entry_content = ''Shared content''\<rparr>]"
  note eq = Search_results [of "''  SHARED Content ''" ?docs,
      THEN conjunct2, THEN conjunct2, THEN conjunct2, THEN conjunct1]
  have n: "toLowerCase (trim ''  SHARED Content '') = ''shared content''" by code_simp
  have "map (\<lambda>r. (link_href (result_doc r), result_snippet r)) (Search ?docs ''  SHARED Content '')
          = [(''/guide/intro'', ''Shared content'')]"
    unfolding eq includesStr_sublist [symmetric] by code_simp
  with n show ?thesis by blast
qed

text \<open>
  Claim C8 as stated fails: the haystack is not the concatenation of the three strings.
  For the record with title \<open>ab\<close>, slug \<open>["c"]\<close> and plain text \<open>d\<close> the query \<open>ab/c\<close> is a
  substring of the lower case of the concatenation \<open>ab/cd\<close>, and the record is not
  returned; the query \<open>b /c d\<close> is no substring of it, and the record is returned.
\<close>

theorem Search_concatenation_counterexample:
  "includesStr (toLowerCase (''ab'' @ slugToHref [''c''] @ ''d'')) (toLowerCase (trim ''ab/c''))
   \<and> Search (docLinks [\<lparr>entry_slug = [''c''], entry_title = ''ab'', entry_content = ''d''\<rparr>])
         ''ab/c'' = []
   \<and> \<not> includesStr (toLowerCase (''ab'' @ slugToHref [''c''] @ ''d'')) (toLowerCase (trim ''b /c d''))
   \<and> map result_snippet
         (Search (docLinks [\<lparr>entry_slug = [''c''], entry_title = ''ab'', entry_content = ''d''\<rparr>])
            ''b /c d'') = [''d'']"
  by code_simp

subsection \<open>The document tree\<close>

lemma set_insertBy: "set (insertBy cmp x xs) = insert x (set xs)"
  by (induction xs) auto

lemma set_sortBy: "set (sortBy cmp xs) = set xs"
  by (induction xs) (auto simp: sortBy_def set_insertBy)

lemma set_nonNull: "set (nonNull xs) = {y. Some y \<in> set xs}"
  by (induction xs) (auto simp: nonNull_def)

lemma collectDocs_mem:
  "n \<in> set (collectDocs lc entries dirPath ancestorSlug) \<longleftrightarrow>
     (\<exists>ent\<in>set entries. collectEntry lc dirPath ancestorSlug ent = Some n)"
  by (auto simp: set_sortBy set_nonNull image_iff) metis

lemma collectDocs_wellPruned:
  "(\<forall>n\<in>set (collectDocs lc entries dirPath ancestorSlug). wellPruned n)"
  and collectEntry_wellPruned:
  "(\<forall>n. collectEntry lc dirPath' ancestorSlug' ent = Some n \<longrightarrow> wellPruned n)"
proof (induction lc entries dirPath ancestorSlug and lc dirPath' ancestorSlug' ent
       rule: collectDocs_collectEntry.induct)
  case (1 localeCompare entries dirPath ancestorSlug)
  then show ?case by (auto simp: collectDocs_mem simp del: collectDocs.simps)
next
  case (2 localeCompare dirPath ancestorSlug entryName childEntries)
  then show ?case by (auto simp: Let_def split: if_splits)
next
  case (3 localeCompare dirPath ancestorSlug entryName uu)
  then show ?case by (auto simp: Let_def split: if_splits)
next
  case (4 localeCompare dirPath ancestorSlug entryName)
  then show ?case by simp
qed

lemma wellPruned_has_file:
  "wellPruned n \<Longrightarrow> node_type n = TDirectory \<Longrightarrow> \<exists>f\<in>set (descendants n). node_type f = TFile"
proof (induction n rule: wellPruned.induct)
  case (1 t name slug filePath children)
  then obtain cs where cs: "children = Some cs" "cs \<noteq> []" "\<forall>c\<in>set cs. wellPruned c"
    by (auto split: option.splits)
  then obtain c where c: "c \<in> set cs" by (cases cs) auto
  show ?case
  proof (cases "node_type c")
    case TFile
    with c cs show ?thesis by auto
  next
    case TDirectory
    with "1.IH"[OF cs(1) c] cs c obtain f where "f \<in> set (descendants c)" "node_type f = TFile"
      by auto
    with c cs show ?thesis by auto
  qed
qed

lemma wellPruned_descendants: "wellPruned n \<Longrightarrow> m \<in> set (descendants n) \<Longrightarrow> wellPruned m"
proof (induction n rule: wellPruned.induct)
  case (1 t name slug filePath children)
  then show ?case by (auto split: option.splits)
qed

text \<open>
  Claim C5. In the tree that \<open>getDocsTree\<close> returns, every directory node, at any
  depth, has a file node among its descendants: a directory with no document file
  anywhere below it is not in the tree.
\<close>

theorem getDocsTree_pruned:
  assumes "getDocsTree localeCompare e = Inr tree"
    and "n \<in> set (allNodes tree)"
    and "node_type n = TDirectory"
  shows "\<exists>f\<in>set (descendants n). node_type f = TFile"
proof -
  from assms(1) obtain entries where
    tree: "tree = collectDocs localeCompare entries (CONTENT_ROOT e) []"
    by (auto simp: getDocsTree_def split: sum.splits)
  from assms(2) obtain c where c: "c \<in> set tree" "n = c \<or> n \<in> set (descendants c)"
    by (auto simp: allNodes_def)
  then have "wellPruned c" using tree collectDocs_wellPruned by blast
  with c have "wellPruned n" using wellPruned_descendants by blast
  then show ?thesis using assms(3) by (rule wellPruned_has_file)
qed

theorem getDocsTree_pruned_witness:
  "getDocsTree codeUnitCompare sampleEnv =
     Inr [DocNode TFile ''faq'' [''faq''] ''/srv/app/content/faq.mdx'' None,
          DocNode TDirectory ''general'' [''general''] ''/srv/app/content/general''
            (Some [DocNode TFile ''shared'' [''general'', ''shared'']
                     ''/srv/app/content/general/shared.mdx'' None]),
          DocNode TDirectory ''guide'' [''guide''] ''/srv/app/content/guide''
            (Some [DocNode TFile ''intro'' [''guide'', ''intro'']
                     ''/srv/app/content/guide/intro.mdx'' None]),
          DocNode TFile ''home'' [''home''] ''/srv/app/content/home.mdx'' None,
          DocNode TFile ''user-guide'' [''user-guide''] ''/srv/app/content/user-guide.mdx'' None]
   \<and> (\<exists>f\<in>set (descendants (DocNode TDirectory ''guide'' [''guide''] ''/srv/app/content/guide''
            (Some [DocNode TFile ''intro'' [''guide'', ''intro'']
                     ''/srv/app/content/guide/intro.mdx'' None]))). node_type f = TFile)"
proof -
  let ?guide = "DocNode TDirectory ''guide'' [''guide''] ''/srv/app/content/guide''
            (Some [DocNode TFile ''intro'' [''guide'', ''intro'']
                     ''/srv/app/content/guide/intro.mdx'' None])"
  let ?tree = "[DocNode TFile ''faq'' [''faq''] ''/srv/app/content/faq.mdx'' None,
          DocNode TDirectory ''general'' [''general''] ''/srv/app/content/general''
            (Some [DocNode TFile ''shared'' [''general'', ''shared'']
                     ''/srv/app/content/general/shared.mdx'' None]),
          ?guide,
          DocNode TFile ''home'' [''home''] ''/srv/app/content/home.mdx'' None,
          DocNode TFile ''user-guide'' [''user-guide''] ''/srv/app/content/user-guide.mdx'' None]"
  have t: "getDocsTree codeUnitCompare sampleEnv = Inr ?tree" by code_simp
  have m: "?guide \<in> set (allNodes ?tree)" by (simp add: allNodes_def)
  have d: "node_type ?guide = TDirectory" by simp
  from getDocsTree_pruned [OF t m d] t show ?thesis by blast
qed

subsection \<open>One level of the tree\<close>

lemma sample_listing: "getChildNodes codeUnitCompare sampleMatter sampleEnv [] = Inr sampleListing"
  by code_simp

lemma promiseAll_Inr: "promiseAll rs = Inr xs \<Longrightarrow> rs = map Inr xs"
  by (induction rs arbitrary: xs rule: promiseAll.induct) (auto split: sum.splits)

lemma getChildNodes_Inr:
  assumes "getChildNodes lc matter e slug = Inr items"
  obtains entries ys where
    "fs_readdir (env_root e) (path_join (CONTENT_ROOT e # slug)) = Inr entries"
    "map (childItem matter slug) entries = map Inr ys"
    "items = sortBy (compareItems lc) (nonNull ys)"
  using assms
  by (auto simp: getChildNodes_def Let_def split: sum.splits if_splits dest!: promiseAll_Inr)

lemma getChildNodes_mem:
  assumes "getChildNodes lc matter e slug = Inr items"
    and "fs_readdir (env_root e) (path_join (CONTENT_ROOT e # slug)) = Inr entries"
  shows "i \<in> set items \<longleftrightarrow> (\<exists>ent\<in>set entries. childItem matter slug ent = Inr (Some i))"
proof -
  from assms obtain ys where ys: "map (childItem matter slug) entries = map Inr ys"
    "items = sortBy (compareItems lc) (nonNull ys)"
    by (auto elim!: getChildNodes_Inr)
  have "i \<in> set items \<longleftrightarrow> Some i \<in> set ys" by (simp add: ys(2) set_sortBy set_nonNull)
  also have "\<dots> \<longleftrightarrow> Inr (Some i) \<in> set (map Inr ys :: (error + DocListItem option) list)" by auto
  also have "\<dots> \<longleftrightarrow> Inr (Some i) \<in> set (map (childItem matter slug) entries)" by (simp only: ys(1))
  also have "\<dots> \<longleftrightarrow> (\<exists>ent\<in>set entries. childItem matter slug ent = Inr (Some i))" by force
  finally show ?thesis .
qed

lemma childItem_directory:
  "childItem matter slug (entryName, entry) = Inr (Some i) \<and> item_type i = TDirectory \<longleftrightarrow>
     (\<exists>childEntries. entry = Dir childEntries \<and> \<not> startsWith entryName ''.''
        \<and> i = \<lparr>item_type = TDirectory, item_name = entryName, item_slug = slug @ [entryName],
                item_hasChildren = Some (list_ex (\<lambda>(childName, child).
                    isDirectory child \<or> (isFile child \<and> endsWith childName CONTENT_EXTENSION)) childEntries),
                item_title = None\<rparr>)"
proof -
  have eq: "\<And>es. list_ex (\<lambda>(childName, child). if isDirectory child then True
                          else isFile child \<and> endsWith childName CONTENT_EXTENSION) es
          = list_ex (\<lambda>(childName, child).
                    isDirectory child \<or> (isFile child \<and> endsWith childName CONTENT_EXTENSION)) es"
    by (simp add: list_ex_iff split_beta) blast
  show ?thesis
    by (cases entry) (auto simp: childItem_def Let_def eq split: if_splits sum.splits)
qed

text \<open>
  Claim C4, as amended. \<open>getChildNodes\<close> does not prune: the directory items of a
  listing are exactly the immediate subdirectories whose name does not begin with a
  dot, each of them whether it has a document below it or not. The field \<open>hasChildren\<close>
  of such an item says whether the subdirectory has, directly in it, a directory or a
  file with the content extension.
\<close>

theorem getChildNodes_directories:
  assumes "getChildNodes localeCompare matter e slug = Inr items"
    and "fs_readdir (env_root e) (path_join (CONTENT_ROOT e # slug)) = Inr entries"
  shows "i \<in> set items \<and> item_type i = TDirectory \<longleftrightarrow>
     (\<exists>entryName childEntries.
        (entryName, Dir childEntries) \<in> set entries \<and> \<not> startsWith entryName ''.''
        \<and> i = \<lparr>item_type = TDirectory, item_name = entryName, item_slug = slug @ [entryName],
                item_hasChildren = Some (list_ex (\<lambda>(childName, child).
                    isDirectory child \<or> (isFile child \<and> endsWith childName CONTENT_EXTENSION)) childEntries),
                item_title = None\<rparr>)"
  (is "?l \<longleftrightarrow> ?r")
proof
  assume ?l
  then obtain entryName entry where "(entryName, entry) \<in> set entries"
    "childItem matter slug (entryName, entry) = Inr (Some i) \<and> item_type i = TDirectory"
    unfolding getChildNodes_mem [OF assms] by auto
  then show ?r unfolding childItem_directory by blast
next
  assume ?r
  then obtain entryName childEntries where x: "(entryName, Dir childEntries) \<in> set entries"
    "childItem matter slug (entryName, Dir childEntries) = Inr (Some i) \<and> item_type i = TDirectory"
    unfolding childItem_directory by blast
  then show ?l unfolding getChildNodes_mem [OF assms] by blast
qed

theorem getChildNodes_directories_witness:
  "getChildNodes codeUnitCompare sampleMatter sampleEnv [] = Inr sampleListing
   \<and> \<lparr>item_type = TDirectory, item_name = ''assets'', item_slug = [''assets''],
        item_hasChildren = Some False, item_title = None\<rparr> \<in> set sampleListing
   \<and> item_type \<lparr>item_type = TDirectory, item_name = ''assets'', item_slug = [''assets''],
        item_hasChildren = Some False, item_title = None\<rparr> = TDirectory"
proof -
  let ?i = "\<lparr>item_type = TDirectory, item_name = ''assets'', item_slug = [''assets''],
        item_hasChildren = Some False, item_title = None\<rparr>"
  let ?entries = "[(''home.mdx'', File ''title: Home|Welcome''),
           (''guide'', Dir [(''intro.mdx'', File ''title: Intro|Welcome|+general/shared'')]),
           (''general'', Dir [(''shared.mdx'', File ''title: Shared|Shared content'')]),
           (''faq.mdx'', File ''Questions''),
           (''user-guide.mdx'', File ''# Setup''),
           (''assets'', Dir [(''logo.png'', File ''PNG'')]),
           (''empty'', Dir [])]"
  have r: "fs_readdir (env_root sampleEnv) (path_join (CONTENT_ROOT sampleEnv # [])) = Inr ?entries"
    by code_simp
  have "(''assets'', Dir [(''logo.png'', File ''PNG'')]) \<in> set ?entries
        \<and> \<not> startsWith ''assets'' ''.''
        \<and> ?i = \<lparr>item_type = TDirectory, item_name = ''assets'', item_slug = [] @ [''assets''],
                item_hasChildren = Some (list_ex (\<lambda>(childName, child).
                    isDirectory child \<or> (isFile child \<and> endsWith childName CONTENT_EXTENSION))
                      [(''logo.png'', File ''PNG'')]),
                item_title = None\<rparr>"
    by (simp add: startsWith_def endsWith_def CONTENT_EXTENSION_def suffix_to_prefix)
  then have "?i \<in> set sampleListing \<and> item_type ?i = TDirectory"
    unfolding getChildNodes_directories [OF sample_listing r, of ?i] by blast
  then show ?thesis using sample_listing by blast
qed

lemma collectDocs_nonempty:
  "collectDocs lc entries dirPath ancestorSlug \<noteq> [] \<longleftrightarrow> hasDocument (Dir entries)"
  and collectEntry_nonempty:
  "collectEntry lc dirPath' ancestorSlug' ent \<noteq> None \<longleftrightarrow>
     (isFile (snd ent) \<and> endsWith (fst ent) CONTENT_EXTENSION) \<or> hasDocument (snd ent)"
proof (induction lc entries dirPath ancestorSlug and lc dirPath' ancestorSlug' ent
       rule: collectDocs_collectEntry.induct)
  case (1 localeCompare entries dirPath ancestorSlug)
  have "collectDocs localeCompare entries dirPath ancestorSlug \<noteq> [] \<longleftrightarrow>
        (\<exists>n. n \<in> set (collectDocs localeCompare entries dirPath ancestorSlug))"
    by (cases "collectDocs localeCompare entries dirPath ancestorSlug") auto
  also have "\<dots> \<longleftrightarrow> (\<exists>ent\<in>set entries. collectEntry localeCompare dirPath ancestorSlug ent \<noteq> None)"
    unfolding collectDocs_mem by auto
  also have "\<dots> \<longleftrightarrow> (\<exists>ent\<in>set entries.
       (isFile (snd ent) \<and> endsWith (fst ent) CONTENT_EXTENSION) \<or> hasDocument (snd ent))"
    using 1 by blast
  also have "\<dots> \<longleftrightarrow> hasDocument (Dir entries)" by (auto simp: split_beta)
  finally show ?case .
next
  case (2 localeCompare dirPath ancestorSlug entryName childEntries)
  then show ?case by (auto simp add: Let_def simp del: collectDocs.simps hasDocument.simps)
next
  case (3 localeCompare dirPath ancestorSlug entryName uu)
  then show ?case by (simp add: Let_def)
next
  case (4 localeCompare dirPath ancestorSlug entryName)
  then show ?case by simp
qed

text \<open>
  Claim C4 as stated fails: on the sample disk the directory \<open>empty\<close> has no entry at
  all, so no document, and the listing of the content root has an item for it.
\<close>

theorem getChildNodes_pruning_counterexample:
  "getChildNodes codeUnitCompare sampleMatter sampleEnv [] = Inr sampleListing
   \<and> \<lparr>item_type = TDirectory, item_name = ''empty'', item_slug = [''empty''],
        item_hasChildren = Some False, item_title = None\<rparr> \<in> set sampleListing
   \<and> fs_stat (env_root sampleEnv) (path_join [CONTENT_ROOT sampleEnv, ''empty'']) = Inr (Dir [])
   \<and> \<not> hasDocument (Dir [])"
proof -
  have "fs_stat (env_root sampleEnv) (path_join [CONTENT_ROOT sampleEnv, ''empty'']) = Inr (Dir [])"
    by code_simp
  then show ?thesis by (simp add: sample_listing) (simp add: sampleListing_def)
qed


subsection \<open>Order of the entries\<close>

lemma sorted_insertBy:
  assumes total: "\<And>a b. cmp a b \<le> 0 \<or> cmp b a \<le> 0"
    and trans: "\<And>a b c. cmp a b \<le> 0 \<Longrightarrow> cmp b c \<le> 0 \<Longrightarrow> cmp a c \<le> 0"
  shows "sorted_wrt (\<lambda>a b. cmp a b \<le> 0) xs \<Longrightarrow> sorted_wrt (\<lambda>a b. cmp a b \<le> 0) (insertBy cmp x xs)"
proof (induction xs)
  case Nil
  then show ?case by simp
next
  case (Cons y ys)
  show ?case
  proof (cases "cmp x y \<le> 0")
    case True
    then have "\<forall>z\<in>set ys. cmp x z \<le> 0" using Cons.prems trans by auto
    with True Cons.prems show ?thesis by simp
  next
    case False
    then have "cmp y x \<le> 0" using total by blast
    with False Cons show ?thesis by (auto simp: set_insertBy)
  qed
qed

lemma sorted_sortBy:
  assumes "\<And>a b. cmp a b \<le> 0 \<or> cmp b a \<le> 0"
    and "\<And>a b c. cmp a b \<le> 0 \<Longrightarrow> cmp b c \<le> 0 \<Longrightarrow> cmp a c \<le> 0"
  shows "sorted_wrt (\<lambda>a b. cmp a b \<le> 0) (sortBy cmp xs)"
proof (induction xs)
  case Nil
  then show ?case by (simp add: sortBy_def)
next
  case (Cons x xs)
  have "sortBy cmp (x # xs) = insertBy cmp x (sortBy cmp xs)" by (simp add: sortBy_def)
  with Cons show ?case using sorted_insertBy[of cmp "sortBy cmp xs" x] assms by presburger
qed

lemma compareItems_le:
  "compareItems lc a b \<le> 0 \<longleftrightarrow>
     (item_type a = TDirectory \<and> item_type b = TFile)
     \<or> (item_type a = item_type b \<and> lc (item_name a) (item_name b) \<le> 0)"
  by (cases "item_type a"; cases "item_type b") (auto simp: compareItems_def)

lemma collectDocs_ordered:
  assumes total: "\<And>a b. lc a b \<le> 0 \<or> lc b a \<le> 0"
    and trans: "\<And>a b c. lc a b \<le> 0 \<Longrightarrow> lc b c \<le> 0 \<Longrightarrow> lc a c \<le> 0"
  shows "sorted_wrt (\<lambda>a b. lc (node_name a) (node_name b) \<le> 0) (collectDocs lc entries dirPath ancestorSlug)"
proof -
  have "sorted_wrt (\<lambda>a b. (\<lambda>a b. lc (node_name a) (node_name b)) a b \<le> 0)
          (sortBy (\<lambda>a b. lc (node_name a) (node_name b))
             (nonNull (map (collectEntry lc dirPath ancestorSlug) entries)))"
    by (rule sorted_sortBy) (use total trans in blast)+
  then show ?thesis by simp
qed

lemma collectDocs_orderedNode:
  assumes total: "\<And>a b. lc a b \<le> 0 \<or> lc b a \<le> 0"
    and trans: "\<And>a b c. lc a b \<le> 0 \<Longrightarrow> lc b c \<le> 0 \<Longrightarrow> lc a c \<le> 0"
  shows "\<forall>n\<in>set (collectDocs lc entries dirPath ancestorSlug). orderedNode lc n"
    and "\<forall>n. collectEntry lc dirPath' ancestorSlug' ent = Some n \<longrightarrow> orderedNode lc n"
  using assms
proof (induction lc entries dirPath ancestorSlug and lc dirPath' ancestorSlug' ent
       rule: collectDocs_collectEntry.induct)
  case (1 localeCompare entries dirPath ancestorSlug)
  then show ?case by (auto simp: collectDocs_mem simp del: collectDocs.simps)
next
  case (2 localeCompare dirPath ancestorSlug entryName childEntries)
  have "sorted_wrt (\<lambda>a b. localeCompare (node_name a) (node_name b) \<le> 0)
          (collectDocs localeCompare childEntries (path_join [dirPath, entryName]) (ancestorSlug @ [entryName]))"
    by (rule collectDocs_ordered) (use 2 in blast)+
  moreover have "\<forall>n\<in>set (collectDocs localeCompare childEntries (path_join [dirPath, entryName]) (ancestorSlug @ [entryName])).
          orderedNode localeCompare n"
    using 2 by blast
  ultimately show ?case by (auto simp: Let_def simp del: collectDocs.simps split: if_splits)
next
  case (3 localeCompare dirPath ancestorSlug entryName uu)
  then show ?case by (auto simp: Let_def split: if_splits)
next
  case (4 localeCompare dirPath ancestorSlug entryName)
  then show ?case by simp
qed

lemma orderedNode_descendants: "orderedNode lc n \<Longrightarrow> m \<in> set (descendants n) \<Longrightarrow> orderedNode lc m"
proof (induction lc n rule: orderedNode.induct)
  case (1 lc t name slug filePath children)
  then show ?case by (auto split: option.splits)
qed

lemma orderedNode_children:
  "orderedNode lc n \<Longrightarrow> node_children n = Some cs \<Longrightarrow>
   sorted_wrt (\<lambda>a b. lc (node_name a) (node_name b) \<le> 0) cs"
  by (cases n) auto

text \<open>
  Claim C6, as amended. Let the collation be total and transitive. In the tree of
  \<open>getDocsTree\<close> the top level and the children of every node are in the order of
  their names under the collation, files and directories mixed. In a listing of
  \<open>getChildNodes\<close> the type is the first sort key: every directory stands before every
  file, and items of the same type are in the order of their names under the collation.
\<close>

theorem tree_builder_order:
  assumes total: "\<forall>a b. localeCompare a b \<le> 0 \<or> localeCompare b a \<le> 0"
    and trans: "\<forall>a b c. localeCompare a b \<le> 0 \<longrightarrow> localeCompare b c \<le> 0 \<longrightarrow> localeCompare a c \<le> 0"
  shows "(getDocsTree localeCompare e = Inr tree \<longrightarrow>
            sorted_wrt (\<lambda>a b. localeCompare (node_name a) (node_name b) \<le> 0) tree
            \<and> (\<forall>n\<in>set (allNodes tree). \<forall>cs. node_children n = Some cs \<longrightarrow>
                  sorted_wrt (\<lambda>a b. localeCompare (node_name a) (node_name b) \<le> 0) cs))
       \<and> (getChildNodes localeCompare matter e slug = Inr items \<longrightarrow>
            sorted_wrt (\<lambda>a b. (item_type a = TDirectory \<and> item_type b = TFile)
                            \<or> (item_type a = item_type b
                                \<and> localeCompare (item_name a) (item_name b) \<le> 0)) items)"
proof (intro conjI impI ballI allI)
  assume t: "getDocsTree localeCompare e = Inr tree"
  then obtain entries where
    tree: "tree = collectDocs localeCompare entries (CONTENT_ROOT e) []"
    by (auto simp: getDocsTree_def split: sum.splits)
  show "sorted_wrt (\<lambda>a b. localeCompare (node_name a) (node_name b) \<le> 0) tree"
    unfolding tree by (rule collectDocs_ordered) (use total trans in blast)+
  fix n cs assume n: "n \<in> set (allNodes tree)" and cs: "node_children n = Some cs"
  from n obtain c where c: "c \<in> set tree" "n = c \<or> n \<in> set (descendants c)"
    by (auto simp: allNodes_def)
  have "orderedNode localeCompare c"
    using collectDocs_orderedNode(1)[of localeCompare entries "CONTENT_ROOT e" "[]"] total trans c(1)
    unfolding tree by blast
  with c have "orderedNode localeCompare n" using orderedNode_descendants by blast
  then show "sorted_wrt (\<lambda>a b. localeCompare (node_name a) (node_name b) \<le> 0) cs"
    using cs by (rule orderedNode_children)
next
  assume "getChildNodes localeCompare matter e slug = Inr items"
  then obtain ys where items: "items = sortBy (compareItems localeCompare) (nonNull ys)"
    by (auto elim!: getChildNodes_Inr)
  have tot: "\<And>a b. compareItems localeCompare a b \<le> 0 \<or> compareItems localeCompare b a \<le> 0"
    unfolding compareItems_le using total by (metis nodeType.exhaust)
  have tr: "\<And>a b c. compareItems localeCompare a b \<le> 0 \<Longrightarrow> compareItems localeCompare b c \<le> 0
              \<Longrightarrow> compareItems localeCompare a c \<le> 0"
    unfolding compareItems_le using trans by (metis nodeType.distinct(1))
  have "sorted_wrt (\<lambda>a b. compareItems localeCompare a b \<le> 0) items"
    unfolding items using tot tr by (rule sorted_sortBy)
  then show "sorted_wrt (\<lambda>a b. (item_type a = TDirectory \<and> item_type b = TFile)
                            \<or> (item_type a = item_type b
                                \<and> localeCompare (item_name a) (item_name b) \<le> 0)) items"
    unfolding compareItems_le .
qed

lemma codeUnitCompare_le: "codeUnitCompare a b \<le> 0 \<longleftrightarrow> a \<le> b"
  by (auto simp: codeUnitCompare_def)

theorem tree_builder_order_witness:
  "getChildNodes codeUnitCompare sampleMatter sampleEnv [] = Inr sampleListing
   \<and> sorted_wrt (\<lambda>a b. (item_type a = TDirectory \<and> item_type b = TFile)
                            \<or> (item_type a = item_type b
                                \<and> codeUnitCompare (item_name a) (item_name b) \<le> 0)) sampleListing
   \<and> map_sum id (map node_name) (getDocsTree codeUnitCompare sampleEnv)
        = Inr [''faq'', ''general'', ''guide'', ''home'', ''user-guide'']"
proof -
  have total: "\<forall>a b. codeUnitCompare a b \<le> 0 \<or> codeUnitCompare b a \<le> 0"
    unfolding codeUnitCompare_le by auto
  have trans: "\<forall>a b c. codeUnitCompare a b \<le> 0 \<longrightarrow> codeUnitCompare b c \<le> 0 \<longrightarrow> codeUnitCompare a c \<le> 0"
    unfolding codeUnitCompare_le by auto
  have l: "getChildNodes codeUnitCompare sampleMatter sampleEnv [] = Inr sampleListing"
    by (rule sample_listing)
  have t: "map_sum id (map node_name) (getDocsTree codeUnitCompare sampleEnv)
        = Inr [''faq'', ''general'', ''guide'', ''home'', ''user-guide'']"
    by code_simp
  from tree_builder_order [OF total trans, where e = sampleEnv and matter = sampleMatter
      and slug = "[]" and items = sampleListing] l t
  show ?thesis by blast
qed

text \<open>
  Claim C6 as stated fails. In the listing of the content root of the sample disk the
  names are not in lexicographic order: the comparator has put the directory \<open>guide\<close>
  before the file \<open>faq\<close>. And the order of the names is that of the collation, not that
  of the code units: with a collation that is blind to case the tree has \<open>alpha\<close> before
  \<open>Zeta\<close>.
\<close>

theorem tree_builder_order_counterexample:
  "getChildNodes codeUnitCompare sampleMatter sampleEnv [] = Inr sampleListing
   \<and> map item_name sampleListing =
       [''assets'', ''empty'', ''general'', ''guide'', ''faq'', ''home'', ''user-guide'']
   \<and> \<not> sorted [''assets'', ''empty'', ''general'', ''guide'', ''faq'', ''home'', ''user-guide'']
   \<and> map node_name (collectDocs caseBlindCompare
          [(''Zeta.mdx'', File ''Z''), (''alpha.mdx'', File ''a'')] ''/srv/app/content'' [])
       = [''alpha'', ''Zeta'']
   \<and> \<not> sorted [''alpha'', ''Zeta'']"
proof -
  have "\<not> (''guide'' \<le> ''faq'')" by code_simp
  then have "\<not> sorted [''assets'', ''empty'', ''general'', ''guide'', ''faq'', ''home'', ''user-guide'']"
    by simp
  moreover have "map item_name sampleListing =
       [''assets'', ''empty'', ''general'', ''guide'', ''faq'', ''home'', ''user-guide'']"
    by (simp add: sampleListing_def)
  moreover have "map node_name (collectDocs caseBlindCompare
          [(''Zeta.mdx'', File ''Z''), (''alpha.mdx'', File ''a'')] ''/srv/app/content'' [])
       = [''alpha'', ''Zeta'']"
    by code_simp
  moreover have "\<not> (''alpha'' \<le> ''Zeta'')" by code_simp
  then have "\<not> sorted [''alpha'', ''Zeta'']" by simp
  ultimately show ?thesis using sample_listing by blast
qed

subsection \<open>Slugs that leave the content root\<close>

lemma find_unsafe: "\<exists>segment\<in>set slug. \<not> safeSegment segment \<Longrightarrow>
  \<exists>segment. find (\<lambda>segment. \<not> safeSegment segment) slug = Some segment \<and> \<not> safeSegment segment"
  by (induction slug) auto

text \<open>
  \<open>readMdxFile\<close> checks the slug before it touches the disk: a slug with a segment that
  is empty or has \<open>..\<close>, a slash or a backslash in it is rejected, whatever the disk holds.
\<close>

lemma readMdxFile_rejects_unsafe:
  assumes "\<exists>segment\<in>set slug. \<not> safeSegment segment"
  shows "\<exists>segment. \<not> safeSegment segment \<and> readMdxFile e slug = Inl (InvalidSlugSegment segment)"
proof -
  from assms have "slug \<noteq> []" by auto
  moreover from find_unsafe [OF assms] obtain segment where
    "find (\<lambda>segment. \<not> safeSegment segment) slug = Some segment" "\<not> safeSegment segment"
    by blast
  ultimately show ?thesis by (auto simp: readMdxFile_def assertSafeSlug_def)
qed

text \<open>
  Claim C1 does not hold of the code. \<open>getChildNodes\<close> does not call \<open>assertSafeSlug\<close>:
  it joins the slug to the content root and reads what is there. On the sample disk the
  slug \<open>[".."]\<close>, which the route makes of the query \<open>slug=..\<close>, is answered with status
  200 and the listing of the project directory \<open>/srv/app\<close>, the title in the front matter
  of \<open>/srv/app/notes.mdx\<close> included, while \<open>readMdxFile\<close> rejects a slug with that segment.
\<close>

theorem getChildNodes_traversal:
  "getChildNodes codeUnitCompare sampleMatter sampleEnv [''..''] =
     Inr [\<lparr>item_type = TDirectory, item_name = ''content'', item_slug = [''..'', ''content''],
            item_hasChildren = Some True, item_title = None\<rparr>,
          \<lparr>item_type = TDirectory, item_name = ''src'', item_slug = [''..'', ''src''],
            item_hasChildren = Some False, item_title = None\<rparr>,
          \<lparr>item_type = TFile, item_name = ''notes'', item_slug = [''..'', ''notes''],
            item_hasChildren = None, item_title = Some ''Private''\<rparr>]
   \<and> GET codeUnitCompare sampleMatter sampleEnv (Some ''..'') =
     Json200 [\<lparr>item_type = TDirectory, item_name = ''content'', item_slug = [''..'', ''content''],
                item_hasChildren = Some True, item_title = None\<rparr>,
              \<lparr>item_type = TDirectory, item_name = ''src'', item_slug = [''..'', ''src''],
                item_hasChildren = Some False, item_title = None\<rparr>,
              \<lparr>item_type = TFile, item_name = ''notes'', item_slug = [''..'', ''notes''],
                item_hasChildren = None, item_title = Some ''Private''\<rparr>]
   \<and> path_join (CONTENT_ROOT sampleEnv # [''..'']) = ''/srv/app''
   \<and> readMdxFile sampleEnv [''..'', ''notes''] = Inl (InvalidSlugSegment ''..'')"
  by code_simp

subsection \<open>Titles of the search index\<close>

text \<open>
  Claim C9 does not hold of the code. \<open>getDocsIndex\<close> takes the title of the front matter
  as it is, but for a document without one it takes the last segment of the slug as it
  is: on the sample disk the entry of \<open>user-guide.mdx\<close> has the title \<open>user-guide\<close>, and
  \<open>humanizeName\<close>, which the navigation tree applies to the name of such a document,
  makes \<open>User Guide\<close> of it.
\<close>

theorem getDocsIndex_titles:
  "getDocsIndex codeUnitCompare sampleMatter sampleEnv =
     Inr [\<lparr>entry_slug = [''home''], entry_title = ''Home'', entry_content = ''Welcome''\<rparr>,
          \<lparr>entry_slug = [''guide'', ''intro''], entry_title = ''Intro'',
            entry_content = ''Welcome|+general/shared''\<rparr>,
          \<lparr>entry_slug = [''general'', ''shared''], entry_title = ''Shared'',
            entry_content = ''Shared content''\<rparr>,
          \<lparr>entry_slug = [''faq''], entry_title = ''faq'', entry_content = ''Questions''\<rparr>,
          \<lparr>entry_slug = [''user-guide''], entry_title = ''user-guide'', entry_content = ''Setup''\<rparr>]
   \<and> humanizeName ''user-guide'' = ''User Guide''"
  by code_simp

subsection \<open>Composition\<close>

lemma readMdxFile_nonempty: "readMdxFile e slug = Inr x \<Longrightarrow> slug \<noteq> []"
  by (auto simp: readMdxFile_def assertSafeSlug_def split: sum.splits if_splits)

lemma document_Some:
  "document lib e slug = Some (fm, body) \<longleftrightarrow>
     (\<exists>source filePath. readMdxFile e slug = Inr (source, filePath) \<and> lib source = Inr (fm, body))"
  by (auto simp: document_def split: sum.splits)

lemma compileMdx_visited:
  "join ''/'' slug \<in> visited \<Longrightarrow>
   compileMdx lib e slug visited = (Inl (CircularInclude (join ''/'' slug)), visited)"
  by (simp add: compileMdx.simps)

lemma compileMdx_document:
  "join ''/'' slug \<notin> visited \<Longrightarrow> document lib e slug = Some (fm, body) \<Longrightarrow>
   compileMdx lib e slug visited =
     (Inr (map (renderElement lib e (insert (join ''/'' slug) visited)) body, fm),
      insert (join ''/'' slug) visited)"
  by (subst compileMdx.simps) (auto simp: document_Some)

lemma thrownIn_member:
  "r \<in> set content \<Longrightarrow> err \<in> set (thrownIn r) \<Longrightarrow> err \<in> set (concat (map thrownIn content))"
  by auto

lemma compileMdx_Inr_nonempty: "fst (compileMdx lib e slug visited) = Inr x \<Longrightarrow> slug \<noteq> []"
  by (subst (asm) compileMdx.simps)
     (auto simp: readMdxFile_def assertSafeSlug_def split: if_splits sum.splits)

lemma include_of_visited:
  assumes "document lib e X = Some (fm, body)" "IncludeTag d \<in> set body"
    and "includeSlugOf d \<noteq> []"
    and "join ''/'' (includeSlugOf d) \<in> insert (join ''/'' X) visited"
    and "join ''/'' X \<notin> visited"
  shows "\<exists>content. fst (compileMdx lib e X visited) = Inr (content, fm)
           \<and> CircularInclude (join ''/'' (includeSlugOf d)) \<in> set (concat (map thrownIn content))"
proof -
  let ?k = "join ''/'' X"
  let ?content = "map (renderElement lib e (insert ?k visited)) body"
  have c: "compileMdx lib e X visited = (Inr (?content, fm), insert ?k visited)"
    using assms(5,1) by (rule compileMdx_document)
  have "createIncludeComponent lib e (insert ?k visited) d
          = Inl (CircularInclude (join ''/'' (includeSlugOf d)))"
    using assms(3,4) by (simp add: createIncludeComponent.simps compileMdx_visited)
  then have "thrownIn (renderElement lib e (insert ?k visited) (IncludeTag d))
          = [CircularInclude (join ''/'' (includeSlugOf d))]"
    by simp
  moreover have "renderElement lib e (insert ?k visited) (IncludeTag d) \<in> set ?content"
    unfolding set_map using assms(2) by (rule imageI)
  ultimately have "CircularInclude (join ''/'' (includeSlugOf d)) \<in> set (concat (map thrownIn ?content))"
    by (intro thrownIn_member[where r = "renderElement lib e (insert ?k visited) (IncludeTag d)"]) simp_all
  with c show ?thesis by simp
qed

text \<open>
  Claim C2. Composing a page fails with an error when compiling it throws the error or
  rendering its content does (\<open>composeErrors\<close>). The composition is a total function: it
  ends on every disk. (1) If the body of the document at \<open>S\<close> has an \<open>Include\<close> tag whose
  slug is \<open>S\<close>, composing \<open>S\<close> fails with the circular-include error for \<open>S\<close>. (2) If the
  document at \<open>A\<close> has a tag for \<open>B\<close> and the document at \<open>B\<close> has a tag for \<open>A\<close>,
  composing \<open>A\<close> fails with the circular-include error for \<open>A\<close>. (3) If the body of the
  document at \<open>A\<close> consists of text and of tags for \<open>B\<close>, any number of them, and \<open>B\<close>
  composes without error below \<open>A\<close>, then composing \<open>A\<close> succeeds, with the content of
  \<open>B\<close> in the place of every tag.
\<close>

theorem compose_cycles:
  "(document lib e S = Some (fm, body) \<and> IncludeTag d \<in> set body \<and> includeSlugOf d = S
      \<longrightarrow> CircularInclude (join ''/'' S) \<in> set (composeErrors lib e S))
   \<and> (document lib e A = Some (fmA, bodyA) \<and> IncludeTag dB \<in> set bodyA \<and> includeSlugOf dB = B
       \<and> document lib e B = Some (fmB, bodyB) \<and> IncludeTag dA \<in> set bodyB \<and> includeSlugOf dA = A
      \<longrightarrow> CircularInclude (join ''/'' A) \<in> set (composeErrors lib e A))
   \<and> (document lib e A = Some (fmA, bodyA)
       \<and> (\<forall>el\<in>set bodyA. case el of Text _ \<Rightarrow> True | IncludeTag s \<Rightarrow> includeSlugOf s = B)
       \<and> fst (compileMdx lib e B {join ''/'' A}) = Inr (contentB, fmB)
       \<and> concat (map thrownIn contentB) = []
      \<longrightarrow> composeErrors lib e A = []
          \<and> renderMdx lib e A =
              Inr (map (\<lambda>el. case el of Text t \<Rightarrow> RText t
                                      | IncludeTag _ \<Rightarrow> RInclude (Inr contentB)) bodyA, fmA))"
proof (intro conjI impI)
  assume h: "document lib e S = Some (fm, body) \<and> IncludeTag d \<in> set body \<and> includeSlugOf d = S"
  then have "S \<noteq> []" by (auto simp: document_Some dest: readMdxFile_nonempty)
  with h include_of_visited[of lib e S fm body d "{}"]
  show "CircularInclude (join ''/'' S) \<in> set (composeErrors lib e S)"
    by (auto simp: composeErrors_def)
next
  assume h: "document lib e A = Some (fmA, bodyA) \<and> IncludeTag dB \<in> set bodyA \<and> includeSlugOf dB = B
       \<and> document lib e B = Some (fmB, bodyB) \<and> IncludeTag dA \<in> set bodyB \<and> includeSlugOf dA = A"
  let ?kA = "join ''/'' A" and ?kB = "join ''/'' B"
  have neA: "A \<noteq> []" and neB: "B \<noteq> []"
    using h by (auto simp: document_Some dest: readMdxFile_nonempty)
  have cA: "compileMdx lib e A {} = (Inr (map (renderElement lib e {?kA}) bodyA, fmA), {?kA})"
    using h compileMdx_document[of A "{}" lib e fmA bodyA] by simp
  have "CircularInclude ?kA \<in> set (thrownIn (renderElement lib e {?kA} (IncludeTag dB)))"
  proof (cases "?kB \<in> {?kA}")
    case True
    then have "createIncludeComponent lib e {?kA} dB = Inl (CircularInclude ?kA)"
      using h neB by (simp add: createIncludeComponent.simps compileMdx_visited)
    then show ?thesis by simp
  next
    case False
    with h neA include_of_visited[of lib e B fmB bodyB dA "{?kA}"]
    obtain contentB where cB: "fst (compileMdx lib e B {?kA}) = Inr (contentB, fmB)"
      "CircularInclude ?kA \<in> set (concat (map thrownIn contentB))"
      by auto
    then have "createIncludeComponent lib e {?kA} dB = Inr contentB"
      using h neB by (simp add: createIncludeComponent.simps)
    with cB(2) show ?thesis by simp
  qed
  moreover have "renderElement lib e {?kA} (IncludeTag dB) \<in> set (map (renderElement lib e {?kA}) bodyA)"
    unfolding set_map using h by (intro imageI) blast
  ultimately have "CircularInclude ?kA \<in> set (concat (map thrownIn (map (renderElement lib e {?kA}) bodyA)))"
    by (rule thrownIn_member[rotated])
  then show "CircularInclude ?kA \<in> set (composeErrors lib e A)"
    by (simp add: composeErrors_def cA)
next
  assume h: "document lib e A = Some (fmA, bodyA)
       \<and> (\<forall>el\<in>set bodyA. case el of Text _ \<Rightarrow> True | IncludeTag s \<Rightarrow> includeSlugOf s = B)
       \<and> fst (compileMdx lib e B {join ''/'' A}) = Inr (contentB, fmB)
       \<and> concat (map thrownIn contentB) = []"
  let ?kA = "join ''/'' A"
  have neB: "B \<noteq> []" using h compileMdx_Inr_nonempty by blast
  have cA: "compileMdx lib e A {} = (Inr (map (renderElement lib e {?kA}) bodyA, fmA), {?kA})"
    using h compileMdx_document[of A "{}" lib e fmA bodyA] by simp
  have el: "renderElement lib e {?kA} el
              = (case el of Text t \<Rightarrow> RText t | IncludeTag _ \<Rightarrow> RInclude (Inr contentB))"
    if "el \<in> set bodyA" for el
  proof (cases el)
    case (Text t)
    then show ?thesis by simp
  next
    case (IncludeTag s)
    with that h have "includeSlugOf s = B" by auto
    with h neB have "createIncludeComponent lib e {?kA} s = Inr contentB"
      by (simp add: createIncludeComponent.simps)
    with IncludeTag show ?thesis by simp
  qed
  then have m: "map (renderElement lib e {?kA}) bodyA
      = map (\<lambda>el. case el of Text t \<Rightarrow> RText t | IncludeTag _ \<Rightarrow> RInclude (Inr contentB)) bodyA"
    by simp
  have "thrownIn (case el of Text t \<Rightarrow> RText t | IncludeTag _ \<Rightarrow> RInclude (Inr contentB)) = []" for el
    using h by (cases el) auto
  then have "concat (map thrownIn (map (\<lambda>el. case el of Text t \<Rightarrow> RText t
                                      | IncludeTag _ \<Rightarrow> RInclude (Inr contentB)) bodyA)) = []"
    by (induction bodyA) auto
  then show "composeErrors lib e A = []" by (simp add: composeErrors_def cA m)
  show "renderMdx lib e A =
              Inr (map (\<lambda>el. case el of Text t \<Rightarrow> RText t
                                      | IncludeTag _ \<Rightarrow> RInclude (Inr contentB)) bodyA, fmA)"
    by (simp add: renderMdx_def cA m)
qed


theorem compose_cycles_witness:
  "CircularInclude ''loop'' \<in> set (composeErrors sampleMDX includeEnv [''loop''])
   \<and> CircularInclude ''ping'' \<in> set (composeErrors sampleMDX includeEnv [''ping''])
   \<and> composeErrors sampleMDX includeEnv [''twice''] = []
   \<and> renderMdx sampleMDX includeEnv [''twice''] =
       Inr ([RInclude (Inr [RText ''Shared content'']), RText ''and again'',
             RInclude (Inr [RText ''Shared content''])],
            [(''title'', VString ''Twice'')])"
proof -
  have loop: "document sampleMDX includeEnv [''loop''] = Some ([], [Text ''Start'', IncludeTag ''loop''])"
    by code_simp
  have ping: "document sampleMDX includeEnv [''ping''] = Some ([], [IncludeTag ''pong''])"
    by code_simp
  have pong: "document sampleMDX includeEnv [''pong''] = Some ([], [IncludeTag ''ping''])"
    by code_simp
  have twice: "document sampleMDX includeEnv [''twice'']
      = Some ([(''title'', VString ''Twice'')],
              [IncludeTag ''part'', Text ''and again'', IncludeTag ''part''])"
    by code_simp
  have part: "fst (compileMdx sampleMDX includeEnv [''part''] {join ''/'' [''twice'']})
      = Inr ([RText ''Shared content''], [(''title'', VString ''Part'')])"
    by code_simp
  have slugs: "includeSlugOf ''loop'' = [''loop'']" "includeSlugOf ''pong'' = [''pong'']"
    "includeSlugOf ''ping'' = [''ping'']" "includeSlugOf ''part'' = [''part'']"
    by code_simp+
  note inst12 = compose_cycles [where lib = sampleMDX and e = includeEnv
      and S = "[''loop'']" and fm = "[]" and body = "[Text ''Start'', IncludeTag ''loop'']" and d = "''loop''"
      and A = "[''ping'']" and fmA = "[]" and bodyA = "[IncludeTag ''pong'']" and dB = "''pong''"
      and B = "[''pong'']" and fmB = "[]" and bodyB = "[IncludeTag ''ping'']" and dA = "''ping''"]
  have 1: "CircularInclude ''loop'' \<in> set (composeErrors sampleMDX includeEnv [''loop''])"
    using inst12 [THEN conjunct1] loop slugs by simp
  have 2: "CircularInclude ''ping'' \<in> set (composeErrors sampleMDX includeEnv [''ping''])"
    using inst12 [THEN conjunct2, THEN conjunct1] ping pong slugs by simp
  note inst3 = compose_cycles [where lib = sampleMDX and e = includeEnv
      and A = "[''twice'']" and fmA = "[(''title'', VString ''Twice'')]"
      and bodyA = "[IncludeTag ''part'', Text ''and again'', IncludeTag ''part'']"
      and B = "[''part'']" and contentB = "[RText ''Shared content'']"
      and fmB = "[(''title'', VString ''Part'')]", THEN conjunct2, THEN conjunct2]
  have 3: "composeErrors sampleMDX includeEnv [''twice''] = []
     \<and> renderMdx sampleMDX includeEnv [''twice''] =
       Inr ([RInclude (Inr [RText ''Shared content'']), RText ''and again'',
             RInclude (Inr [RText ''Shared content''])],
            [(''title'', VString ''Twice'')])"
    using inst3 twice part slugs by simp
  from 1 2 3 show ?thesis by blast
qed

lemma agree_bodies:
  fixes lib lib' :: mdxlib
  assumes "\<forall>source. map_sum id snd (lib' source) = map_sum id snd (lib source)"
  shows "lib source = Inr (fm, body) \<Longrightarrow> \<exists>fm'. lib' source = Inr (fm', body)"
    and "lib source = Inl err \<Longrightarrow> lib' source = Inl err"
proof -
  have eq: "map_sum id snd (lib' source) = map_sum id snd (lib source)" using assms by blast
  show "lib source = Inr (fm, body) \<Longrightarrow> \<exists>fm'. lib' source = Inr (fm', body)"
    using eq by (cases "lib' source") auto
  show "lib source = Inl err \<Longrightarrow> lib' source = Inl err"
    using eq by (cases "lib' source") auto
qed

lemma compose_content_independent:
  assumes "\<forall>source. map_sum id snd (lib' source) = map_sum id snd (lib source)"
  shows "map_sum id fst (fst (compileMdx lib' e slug visited))
           = map_sum id fst (fst (compileMdx lib e slug visited))"
    and "renderElement lib' e2 visited2 el = renderElement lib e2 visited2 el"
    and "createIncludeComponent lib' e3 visited3 s = createIncludeComponent lib e3 visited3 s"
  using assms
proof (induction lib e slug visited and lib e2 visited2 el and lib e3 visited3 s
       rule: compileMdx_renderElement_createIncludeComponent.induct)
  case (1 compileMDX e slug visited)
  show ?case
  proof (cases "join ''/'' slug \<in> visited")
    case True
    then show ?thesis by (simp add: compileMdx.simps)
  next
    case nv: False
    show ?thesis
    proof (cases "readMdxFile e slug")
      case (Inl err)
      with nv show ?thesis by (simp add: compileMdx.simps)
    next
      case (Inr sf)
      obtain source filePath where sf: "sf = (source, filePath)" by (cases sf)
      show ?thesis
      proof (cases "compileMDX source")
        case (Inl err)
        then have "lib' source = Inl err" using agree_bodies(2)[OF "1.prems"] by blast
        with Inl Inr sf nv show ?thesis by (simp add: compileMdx.simps)
      next
        case r: (Inr d)
        obtain fm body where d: "d = (fm, body)" by (cases d)
        with r obtain fm' where l': "lib' source = Inr (fm', body)"
          using agree_bodies(1)[OF "1.prems"] by blast
        have "map (renderElement lib' e (insert (join ''/'' slug) visited)) body
            = map (renderElement compileMDX e (insert (join ''/'' slug) visited)) body"
          using "1.IH"[OF nv Inr sf[symmetric] r d[symmetric] _ "1.prems"] by simp
        with r d l' Inr sf nv show ?thesis by (simp add: compileMdx.simps)
      qed
    qed
  qed
next
  case (2 compileMDX e visited t)
  then show ?case by simp
next
  case (3 compileMDX e visited s)
  then show ?case by simp
next
  case (4 compileMDX e visited slug)
  show ?case
  proof (cases "includeSlugOf slug = []")
    case True
    then show ?thesis by (simp add: createIncludeComponent.simps)
  next
    case False
    from "4.IH"[OF False "4.prems"]
    have "map_sum id fst (fst (compileMdx lib' e (includeSlugOf slug) visited))
        = map_sum id fst (fst (compileMdx compileMDX e (includeSlugOf slug) visited))" .
    then show ?thesis using False
      by (cases "fst (compileMdx lib' e (includeSlugOf slug) visited)";
          cases "fst (compileMdx compileMDX e (includeSlugOf slug) visited)")
         (auto simp: createIncludeComponent.simps)
  qed
qed

text \<open>
  Claim C3. When composing the page at a slug succeeds, its metadata is the front matter
  of the document at that slug. The front matter of an included document goes nowhere:
  with any MDX library that parses every source to the same body (and so differs, if at
  all, in the front matter it finds), the composed page has the same content and, as
  metadata, the front matter that this library finds in the root document.
\<close>

theorem compose_metadata:
  assumes "renderMdx lib e slug = Inr (content, metadata)"
  shows "(\<exists>body. document lib e slug = Some (metadata, body))
       \<and> (\<forall>lib'. (\<forall>source. map_sum id snd (lib' source) = map_sum id snd (lib source)) \<longrightarrow>
             (\<exists>metadata' body. document lib' e slug = Some (metadata', body)
                \<and> renderMdx lib' e slug = Inr (content, metadata')))"
proof (intro conjI allI impI)
  from assms obtain source filePath body where
    r: "readMdxFile e slug = Inr (source, filePath)" and l: "lib source = Inr (metadata, body)"
    and c: "content = map (renderElement lib e {join ''/'' slug}) body"
    unfolding renderMdx_def
    by (subst (asm) compileMdx.simps) (auto split: sum.splits if_splits)
  from r l show "\<exists>body. document lib e slug = Some (metadata, body)"
    by (auto simp: document_Some)
  fix lib' :: mdxlib
  assume a: "\<forall>source. map_sum id snd (lib' source) = map_sum id snd (lib source)"
  then obtain fm' where l': "lib' source = Inr (fm', body)"
    using agree_bodies(1)[OF a l] by blast
  have d': "document lib' e slug = Some (fm', body)" using r l' by (auto simp: document_Some)
  have "map (renderElement lib' e {join ''/'' slug}) body = content"
    unfolding c using compose_content_independent(2)[OF a] by simp
  then have "renderMdx lib' e slug = Inr (content, fm')"
    unfolding renderMdx_def using compileMdx_document[OF _ d', of "{}"] by simp
  with d' show "\<exists>metadata' body. document lib' e slug = Some (metadata', body)
                \<and> renderMdx lib' e slug = Inr (content, metadata')"
    by blast
qed

theorem compose_metadata_witness:
  "renderMdx sampleMDX sampleEnv [''guide'', ''intro''] =
     Inr ([RText ''Welcome'', RInclude (Inr [RText ''Shared content''])],
          [(''title'', VString ''Intro'')])
   \<and> document sampleMDX sampleEnv [''guide'', ''intro''] =
       Some ([(''title'', VString ''Intro'')], [Text ''Welcome'', IncludeTag ''general/shared''])
   \<and> document sampleMDX sampleEnv [''general'', ''shared''] =
       Some ([(''title'', VString ''Shared'')], [Text ''Shared content''])"
proof -
  have r: "renderMdx sampleMDX sampleEnv [''guide'', ''intro''] =
     Inr ([RText ''Welcome'', RInclude (Inr [RText ''Shared content''])],
          [(''title'', VString ''Intro'')])"
    by code_simp
  have s: "document sampleMDX sampleEnv [''general'', ''shared''] =
       Some ([(''title'', VString ''Shared'')], [Text ''Shared content''])"
    by code_simp
  have d: "document sampleMDX sampleEnv [''guide'', ''intro''] =
       Some ([(''title'', VString ''Intro'')], [Text ''Welcome'', IncludeTag ''general/shared''])"
    by code_simp
  from compose_metadata [OF r, THEN conjunct1] d
  have "\<exists>body. document sampleMDX sampleEnv [''guide'', ''intro'']
          = Some ([(''title'', VString ''Intro'')], body)" by blast
  with r s d show ?thesis by blast
qed

end
